theory Spec2Isabelle
  imports Complex_Main "HOL-Library.Log_Nat"
begin

section \<open>Data model\<close>

text \<open>
  The game screen of Bubble Popper (\<^verbatim>\<open>GameScreen.js\<close>, and its earlier variant kept
  beside it) is a React component: its state variables, its refs and the timers it has
  handed to the host are collected in one record, and every handler is a function from
  that record to the updated one.

  JavaScript numbers are modelled as follows: pixel coordinates as \<open>real\<close>, the score,
  the seconds left and timestamps as \<open>int\<close>, bubble ids and timer ids as \<open>nat\<close>. The
  sums of the hit test (the centre of the gun, the centre of a bubble and its distance
  from the laser) are rounded as the host rounds them; the other sums are exact.
\<close>

subsection \<open>Double precision\<close>

text \<open>
  A JavaScript number is an IEEE 754 binary64 value, and every arithmetic operation
  returns the double nearest to the exact result, a tie going to the even significand.
  \<open>fl x\<close> is that double: \<open>x\<close> is brought to a whole number of quanta, the quantum
  being \<open>2\<close> to the power \<open>e - 52\<close> for the binary exponent \<open>e\<close> of \<open>x\<close> (53 significant
  bits), and \<open>-1022\<close> for \<open>e\<close> in the subnormal range. Results at or beyond \<open>2 ^ 1024\<close>,
  which the host turns into an infinity, are outside the model: no coordinate of a
  screen comes near them.
\<close>

definition exponent :: "real \<Rightarrow> int" where
  "exponent x =
     (if 1 \<le> \<bar>x\<bar> then bitlen \<lfloor>\<bar>x\<bar>\<rfloor> - 1 else - bitlen (\<lceil>1 / \<bar>x\<bar>\<rceil> - 1))"

definition quantum :: "real \<Rightarrow> real" where
  "quantum x = 2 powi (max (exponent x) (- 1022) - 52)"

definition roundTiesToEven :: "real \<Rightarrow> int" where
  "roundTiesToEven y =
     (let n = \<lfloor>y\<rfloor>;
          d = y - of_int n
      in if d < 1 / 2 then n else if 1 / 2 < d then n + 1 else if even n then n else n + 1)"

definition fl :: "real \<Rightarrow> real" where
  "fl x = (if x = 0 then 0 else of_int (roundTiesToEven (x / quantum x)) * quantum x)"

record bubble =
  bubble_id :: nat
  bubble_x :: real
  bubble_y :: real
  bubble_radius :: real

text \<open>The callbacks that the component hands to \<^verbatim>\<open>setInterval\<close> and \<^verbatim>\<open>setTimeout\<close>.\<close>

datatype task = SpawnBubble | Countdown | MoveBubbles | HideLaser

type_synonym handle = nat

record game =
  gameStarted :: bool
  gameOver :: bool
  score :: int
  timeLeft :: int
  bubbles :: "bubble list"
  laserVisible :: bool
  gunPosition :: real
  tapStartTime :: int
  tapStartX :: real
  bubbleIdRef :: nat
  timerRef :: "handle option"
  bubbleTimerRef :: "handle option"
  laserTimeoutRef :: "handle option"
  moveInterval :: "handle option"
  timers :: "(handle \<times> task) list"
  nextHandle :: handle

text \<open>\<^verbatim>\<open>Dimensions.get('window')\<close>, read once when the module is loaded.\<close>

record dimensions =
  screenWidth :: real
  screenHeight :: real

definition gunWidth :: real where
  "gunWidth = 60"

definition TAP_MAX_DURATION :: int where
  "TAP_MAX_DURATION = 200"

definition TAP_MAX_MOVEMENT :: real where
  "TAP_MAX_MOVEMENT = 10"

text \<open>The state of the first render: the arguments of \<^verbatim>\<open>useState\<close> and \<^verbatim>\<open>useRef\<close>.\<close>

definition init :: "dimensions \<Rightarrow> game" where
  "init g = \<lparr>gameStarted = False, gameOver = False, score = 0, timeLeft = 120,
     bubbles = [], laserVisible = False,
     gunPosition = screenWidth g / 2 - gunWidth / 2,
     tapStartTime = 0, tapStartX = 0, bubbleIdRef = 1,
     timerRef = None, bubbleTimerRef = None, laserTimeoutRef = None,
     moveInterval = None, timers = [], nextHandle = 1\<rparr>"

section \<open>The host's timers\<close>

text \<open>
  \<open>timers\<close> is the host's table of scheduled callbacks. \<^verbatim>\<open>setInterval\<close> and
  \<^verbatim>\<open>setTimeout\<close> add an entry under a fresh positive id and return the id;
  \<^verbatim>\<open>clearInterval\<close> and \<^verbatim>\<open>clearTimeout\<close> remove the entry of an id and do nothing
  for an id that has none.
\<close>

definition setInterval :: "task \<Rightarrow> game \<Rightarrow> handle \<times> game" where
  "setInterval cb s =
     (nextHandle s,
      s\<lparr>timers := timers s @ [(nextHandle s, cb)], nextHandle := Suc (nextHandle s)\<rparr>)"

definition setTimeout :: "task \<Rightarrow> game \<Rightarrow> handle \<times> game" where
  "setTimeout cb s =
     (nextHandle s,
      s\<lparr>timers := timers s @ [(nextHandle s, cb)], nextHandle := Suc (nextHandle s)\<rparr>)"

definition clearInterval :: "handle \<Rightarrow> game \<Rightarrow> game" where
  "clearInterval h s = s\<lparr>timers := filter (\<lambda>e. fst e \<noteq> h) (timers s)\<rparr>"

definition clearTimeout :: "handle \<Rightarrow> game \<Rightarrow> game" where
  "clearTimeout h s = s\<lparr>timers := filter (\<lambda>e. fst e \<noteq> h) (timers s)\<rparr>"

text \<open>
  \<^verbatim>\<open>if (ref.current) clearInterval(ref.current)\<close>: a ref holds \<^verbatim>\<open>null\<close> or a timer id,
  and timer ids are positive, so the test is on \<^verbatim>\<open>null\<close>. Clearing \<^verbatim>\<open>null\<close> directly,
  as the countdown does, is a no-op of the host.
\<close>

definition clearRef :: "handle option \<Rightarrow> game \<Rightarrow> game" where
  "clearRef r s = (case r of None \<Rightarrow> s | Some h \<Rightarrow> clearInterval h s)"

section \<open>Hit detection\<close>

text \<open>
  The test of \<^verbatim>\<open>checkHits\<close>: a sum and a difference, each rounded; \<^verbatim>\<open>Math.abs\<close> and
  the comparison are exact.
\<close>

definition isHit :: "real \<Rightarrow> bubble \<Rightarrow> bool" where
  "isHit laserX b =
     (let bubbleCenterX = fl (bubble_x b + bubble_radius b)
      in \<bar>fl (bubbleCenterX - laserX)\<bar> \<le> bubble_radius b)"

text \<open>The \<^verbatim>\<open>forEach\<close> of \<^verbatim>\<open>checkHits\<close>, with its two accumulators.\<close>

fun collectHits :: "real \<Rightarrow> bubble list \<Rightarrow> nat list \<times> int \<Rightarrow> nat list \<times> int" where
  "collectHits laserX [] acc = acc"
| "collectHits laserX (b # bs) (hitBubbleIds, hitCount) =
     (if isHit laserX b
      then collectHits laserX bs (hitBubbleIds @ [bubble_id b], hitCount + 1)
      else collectHits laserX bs (hitBubbleIds, hitCount))"

definition checkHits :: "real \<Rightarrow> game \<Rightarrow> game" where
  "checkHits laserX s =
     (let prevBubbles = bubbles s;
          (hitBubbleIds, hitCount) = collectHits laserX prevBubbles ([], 0);
          s1 = (if hitCount > 0 then s\<lparr>score := score s + hitCount\<rparr> else s)
      in s1\<lparr>bubbles := filter (\<lambda>b. bubble_id b \<notin> set hitBubbleIds) prevBubbles\<rparr>)"

section \<open>Firing\<close>

text \<open>
  A function declared in the component body closes over the state variables of the
  render that created it. Such a function takes two states: \<open>c\<close>, the state that was
  rendered when the function was created (state variables are read from it), and \<open>s\<close>,
  the state at the moment of the call (refs are read from it, and the state setters
  update it).
\<close>

definition gunCenterX :: "game \<Rightarrow> real" where
  "gunCenterX c = fl (gunPosition c + gunWidth / 2)"

definition fireLaser :: "game \<Rightarrow> game \<Rightarrow> game" where
  "fireLaser c s =
     (let s1 = (case laserTimeoutRef s of None \<Rightarrow> s | Some h \<Rightarrow> clearTimeout h s);
          s2 = s1\<lparr>laserVisible := True\<rparr>;
          s3 = checkHits (gunCenterX c) s2;
          (h, s4) = setTimeout HideLaser s3
      in s4\<lparr>laserTimeoutRef := Some h\<rparr>)"

definition handleTap :: "game \<Rightarrow> game \<Rightarrow> game" where
  "handleTap c s = (if \<not> gameStarted c \<or> gameOver c then s else fireLaser c s)"

section \<open>Spawning, the countdown and the motion tick\<close>

text \<open>\<open>r\<close> is the value of \<^verbatim>\<open>Math.random()\<close>, a number in \<open>[0, 1)\<close>.\<close>

definition spawnBubble :: "dimensions \<Rightarrow> real \<Rightarrow> game \<Rightarrow> game" where
  "spawnBubble g r s =
     (let radius = 30;
          maxX = screenWidth g - radius * 2
      in s\<lparr>bubbles := bubbles s @
              [\<lparr>bubble_id = bubbleIdRef s, bubble_x = r * maxX,
                bubble_y = screenHeight g - 100, bubble_radius = radius\<rparr>],
           bubbleIdRef := bubbleIdRef s + 1\<rparr>)"

definition countdownTick :: "game \<Rightarrow> game" where
  "countdownTick s =
     (if timeLeft s \<le> 1
      then (let s1 = clearRef (timerRef s) s;
                s2 = clearRef (bubbleTimerRef s1) s1
            in s2\<lparr>gameOver := True, timeLeft := 0\<rparr>)
      else s\<lparr>timeLeft := timeLeft s - 1\<rparr>)"

definition startGame :: "game \<Rightarrow> game" where
  "startGame s =
     (let s1 = s\<lparr>gameStarted := True, gameOver := False, score := 0, timeLeft := 120,
                 bubbles := [], laserVisible := False, bubbleIdRef := 1\<rparr>;
          (hb, s2) = setInterval SpawnBubble s1;
          s3 = s2\<lparr>bubbleTimerRef := Some hb\<rparr>;
          (ht, s4) = setInterval Countdown s3
      in s4\<lparr>timerRef := Some ht\<rparr>)"

definition resetGame :: "game \<Rightarrow> game" where
  "resetGame s =
     (let s1 = s\<lparr>gameStarted := False, gameOver := False, bubbles := [], score := 0,
                 timeLeft := 120, laserVisible := False, bubbleIdRef := 1\<rparr>;
          s2 = (case timerRef s1 of None \<Rightarrow> s1 | Some h \<Rightarrow> clearInterval h s1)
      in (case bubbleTimerRef s2 of None \<Rightarrow> s2 | Some h \<Rightarrow> clearInterval h s2))"

definition moveTick :: "game \<Rightarrow> game" where
  "moveTick s =
     s\<lparr>bubbles := filter (\<lambda>bubble. bubble_y bubble > - 60)
                    (map (\<lambda>bubble. bubble\<lparr>bubble_y := bubble_y bubble - 2\<rparr>) (bubbles s))\<rparr>"

text \<open>
  The effect with dependencies \<^verbatim>\<open>[gameStarted, gameOver]\<close>: after a render in which one
  of the two differs from the render before (\<open>p\<close>), the cleanup of the last run clears
  its \<^verbatim>\<open>moveInterval\<close>, and the effect runs again. \<open>moveInterval\<close> is \<open>None\<close> when the
  last run returned early and left no cleanup.
\<close>

definition moveEffect :: "game \<Rightarrow> game \<Rightarrow> game" where
  "moveEffect p s =
     (if gameStarted p = gameStarted s \<and> gameOver p = gameOver s then s
      else
        (let s1 = (case moveInterval s of None \<Rightarrow> s | Some h \<Rightarrow> clearInterval h s);
             s2 = s1\<lparr>moveInterval := None\<rparr>
         in if \<not> gameStarted s2 \<or> gameOver s2 then s2
            else (let (h, s3) = setInterval MoveBubbles s2
                  in s3\<lparr>moveInterval := Some h\<rparr>)))"

section \<open>Gestures\<close>

text \<open>
  The pan responder of \<^verbatim>\<open>GameScreen.js\<close>. \<open>now\<close> is \<^verbatim>\<open>Date.now()\<close>; \<open>x0\<close> and \<open>moveX\<close>
  are the fields of the gesture state. \<open>c\<close> is the render whose \<^verbatim>\<open>handleTap\<close> the
  release handler closes over.
\<close>

definition onPanResponderGrant :: "dimensions \<Rightarrow> int \<Rightarrow> real \<Rightarrow> game \<Rightarrow> game" where
  "onPanResponderGrant g now x0 s =
     (let s1 = s\<lparr>tapStartTime := now, tapStartX := x0\<rparr>;
          newX = x0 - gunWidth / 2
      in s1\<lparr>gunPosition := max 0 (min newX (screenWidth g - gunWidth))\<rparr>)"

definition onPanResponderMove :: "dimensions \<Rightarrow> real \<Rightarrow> game \<Rightarrow> game" where
  "onPanResponderMove g moveX s =
     (let newX = moveX - gunWidth / 2
      in s\<lparr>gunPosition := max 0 (min newX (screenWidth g - gunWidth))\<rparr>)"

definition onPanResponderRelease :: "game \<Rightarrow> int \<Rightarrow> real \<Rightarrow> game \<Rightarrow> game" where
  "onPanResponderRelease c now moveX s =
     (let tapDuration = now - tapStartTime s;
          moveDistance = \<bar>moveX - tapStartX s\<bar>
      in if tapDuration < TAP_MAX_DURATION \<and> moveDistance < TAP_MAX_MOVEMENT
         then handleTap c s else s)"

text \<open>
  The pan responder of the earlier variant of the screen: a move sets the gun to the
  position recorded at the start of the drag (the ref \<^verbatim>\<open>gunInitialX\<close>, here a
  parameter) plus the horizontal displacement \<^verbatim>\<open>dx\<close>, brought back into range by two
  successive tests.
\<close>

definition onPanResponderMove_dx :: "dimensions \<Rightarrow> real \<Rightarrow> real \<Rightarrow> game \<Rightarrow> game" where
  "onPanResponderMove_dx g gunInitialX dx s =
     (let newX = gunInitialX + dx;
          newX1 = (if newX < 0 then 0 else newX);
          newX2 = (if newX1 > screenWidth g - gunWidth then screenWidth g - gunWidth else newX1)
      in s\<lparr>gunPosition := newX2\<rparr>)"

section \<open>Events\<close>

text \<open>
  A timer that fires runs the callback it was scheduled with; an id without an entry
  never fires. The laser timeout is one-shot: the host drops its entry when it runs.
\<close>

definition fireTimer :: "dimensions \<Rightarrow> handle \<Rightarrow> real \<Rightarrow> game \<Rightarrow> game" where
  "fireTimer g h r s =
     (case map_of (timers s) h of
        None \<Rightarrow> s
      | Some SpawnBubble \<Rightarrow> spawnBubble g r s
      | Some Countdown \<Rightarrow> countdownTick s
      | Some MoveBubbles \<Rightarrow> moveTick s
      | Some HideLaser \<Rightarrow> (clearTimeout h s)\<lparr>laserVisible := False\<rparr>)"

text \<open>
  What the rendered screen lets through (the JSX of \<^verbatim>\<open>GameScreen.js\<close>):
  \<^item> the Start button exists only while the game is neither started nor over, the
    Play Again button only while it is over;
  \<^item> the game area gets the responder props only while the game is running: first
    the pan handlers, then, spread after them, \<^verbatim>\<open>onResponderRelease: handleTap\<close>. The
    pan handlers are the responder props of the view (\<^verbatim>\<open>onResponderGrant\<close>,
    \<^verbatim>\<open>onResponderMove\<close>, \<^verbatim>\<open>onResponderRelease\<close>, ...) that forward to the
    \<^verbatim>\<open>onPanResponder...\<close> callbacks, and a later spread replaces an equal key. So the
    start and the moves of a touch reach the pan responder, and its release calls
    \<^verbatim>\<open>handleTap\<close> of the current render.
  Every event is followed by a render and the effect.
\<close>

datatype event =
    PressStart
  | PressPlayAgain
  | TouchStart real int
  | TouchMove real
  | TouchEnd real int
  | Timer handle real

definition dispatch :: "dimensions \<Rightarrow> event \<Rightarrow> game \<Rightarrow> game" where
  "dispatch g e s =
     (case e of
        PressStart \<Rightarrow> if \<not> gameStarted s \<and> \<not> gameOver s then startGame s else s
      | PressPlayAgain \<Rightarrow> if gameOver s then resetGame s else s
      | TouchStart x0 now \<Rightarrow>
          if gameStarted s \<and> \<not> gameOver s then onPanResponderGrant g now x0 s else s
      | TouchMove moveX \<Rightarrow>
          if gameStarted s \<and> \<not> gameOver s then onPanResponderMove g moveX s else s
      | TouchEnd moveX now \<Rightarrow>
          if gameStarted s \<and> \<not> gameOver s then handleTap s s else s
      | Timer h r \<Rightarrow> fireTimer g h r s)"

definition ui :: "dimensions \<Rightarrow> event \<Rightarrow> game \<Rightarrow> game" where
  "ui g e s = moveEffect s (dispatch g e s)"

text \<open>An event the host can deliver: \<^verbatim>\<open>Math.random()\<close> lies in \<open>[0, 1)\<close>.\<close>

fun possible :: "event \<Rightarrow> bool" where
  "possible (Timer h r) \<longleftrightarrow> 0 \<le> r \<and> r < 1"
| "possible _ \<longleftrightarrow> True"

fun run :: "dimensions \<Rightarrow> event list \<Rightarrow> game \<Rightarrow> game" where
  "run g [] s = s"
| "run g (e # es) s = run g es (ui g e s)"

inductive_set reachable :: "dimensions \<Rightarrow> game set" for g :: dimensions where
  start: "init g \<in> reachable g"
| step: "s \<in> reachable g \<Longrightarrow> possible e \<Longrightarrow> ui g e s \<in> reachable g"

section \<open>Invariants\<close>

text \<open>The interval callbacks among the scheduled ones, in the order they were scheduled.\<close>

definition periodic :: "game \<Rightarrow> (handle \<times> task) list" where
  "periodic s = filter (\<lambda>e. snd e \<noteq> HideLaser) (timers s)"

definition gun_in_range :: "dimensions \<Rightarrow> game \<Rightarrow> bool" where
  "gun_in_range g s \<longleftrightarrow> 0 \<le> gunPosition s \<and> gunPosition s \<le> screenWidth g - gunWidth"

definition ids_ok :: "game \<Rightarrow> bool" where
  "ids_ok s \<longleftrightarrow>
     distinct (map bubble_id (bubbles s)) \<and>
     list_all (\<lambda>b. bubble_id b < bubbleIdRef s) (bubbles s)"

definition clock_ok :: "game \<Rightarrow> bool" where
  "clock_ok s \<longleftrightarrow>
     0 \<le> timeLeft s \<and> timeLeft s \<le> 120 \<and>
     (if gameOver s then timeLeft s = 0 else if gameStarted s then 1 \<le> timeLeft s else True)"

text \<open>
  Timer ids are never reused; the scheduled laser timeout is the one the ref holds; while
  the game runs the interval callbacks are exactly the spawn, countdown and motion
  timers the refs hold, and otherwise there is none.
\<close>

definition timers_ok :: "game \<Rightarrow> bool" where
  "timers_ok s \<longleftrightarrow>
     distinct (map fst (timers s)) \<and>
     list_all (\<lambda>e. fst e < nextHandle s) (timers s) \<and>
     list_all (\<lambda>e. (snd e = HideLaser) = (laserTimeoutRef s = Some (fst e))) (timers s) \<and>
     (\<forall>h \<in> set_option (laserTimeoutRef s). h < nextHandle s) \<and>
     (if gameStarted s \<and> \<not> gameOver s
      then bubbleTimerRef s \<noteq> None \<and> timerRef s \<noteq> None \<and> moveInterval s \<noteq> None \<and>
           periodic s = [(the (bubbleTimerRef s), SpawnBubble), (the (timerRef s), Countdown),
                         (the (moveInterval s), MoveBubbles)]
      else periodic s = [] \<and> moveInterval s = None)"

text \<open>How many times the timer \<open>ht\<close> fires in a sequence of events.\<close>

fun firings :: "handle \<Rightarrow> event list \<Rightarrow> nat" where
  "firings ht [] = 0"
| "firings ht (Timer h r # es) = (if h = ht then Suc (firings ht es) else firings ht es)"
| "firings ht (_ # es) = firings ht es"

section \<open>Sample inputs\<close>

text \<open>
  A 400 by 800 window, two small bubble collections and a state at the end of a round,
  used to run the model.
\<close>

definition phone :: dimensions where
  "phone = \<lparr>screenWidth = 400, screenHeight = 800\<rparr>"

definition spec_bubbles :: "bubble list" where
  "spec_bubbles =
     [\<lparr>bubble_id = 1, bubble_x = 0, bubble_y = 500, bubble_radius = 30\<rparr>,
      \<lparr>bubble_id = 2, bubble_x = 100, bubble_y = 40, bubble_radius = 30\<rparr>,
      \<lparr>bubble_id = 3, bubble_x = 10, bubble_y = 300, bubble_radius = 30\<rparr>]"

definition rising :: "bubble list" where
  "rising =
     [\<lparr>bubble_id = 1, bubble_x = 0, bubble_y = - 58, bubble_radius = 30\<rparr>,
      \<lparr>bubble_id = 2, bubble_x = 100, bubble_y = 40, bubble_radius = 30\<rparr>]"

definition played :: game where
  "played = init phone\<lparr>gameStarted := True, gameOver := True, score := 7, timeLeft := 0,
     bubbles := spec_bubbles, laserVisible := True, gunPosition := 270, bubbleIdRef := 9\<rparr>"

text \<open>
  A first round just started; a round played to its end with a tap just before the
  last countdown tick; a drag of 500 ms over 100 px under a freshly spawned bubble.
\<close>

definition first_round :: game where
  "first_round = ui phone PressStart (init phone)"

definition round_events :: "event list" where
  "round_events = PressStart # replicate 119 (Timer 2 0) @ [TouchEnd 200 5, Timer 2 0]"

definition drag_events :: "event list" where
  "drag_events = [PressStart, Timer 1 (1 / 2), TouchStart 100 1000, TouchMove 200]"

text \<open>
  A bubble spawned with \<^verbatim>\<open>Math.random()\<close> returning the double \<open>0.7\<close>, and a touch at
  \<open>x = 298\<close>, which puts the centre of the gun at 298; and the same bubble with the \<open>x\<close>
  the host stores for it, the double below 238.
\<close>

definition boundary_events :: "event list" where
  "boundary_events = [PressStart, Timer 1 (fl (7 / 10)), TouchStart 298 0]"

definition boundary_bubble :: bubble where
  "boundary_bubble =
     \<lparr>bubble_id = 1, bubble_x = 238 - 1 / 2 ^ 45, bubble_y = 700, bubble_radius = 30\<rparr>"

section \<open>Hit detection and scoring\<close>

lemma collectHits_filter:
  "collectHits laserX bs (ids, n) =
     (ids @ map bubble_id (filter (isHit laserX) bs),
      n + int (length (filter (isHit laserX) bs)))"
  by (induction bs arbitrary: ids n) simp_all

lemma hit_id_iff:
  assumes "distinct (map bubble_id bs)" and "b \<in> set bs"
  shows "bubble_id b \<in> bubble_id ` set (filter P bs) \<longleftrightarrow> P b"
proof -
  from assms(1) have "inj_on bubble_id (set bs)"
    by (simp add: distinct_map)
  with assms(2) show ?thesis
    by (auto dest: inj_onD)
qed

lemma checkHits_bubbles:
  assumes "distinct (map bubble_id (bubbles s))"
  shows "bubbles (checkHits laserX s) = filter (\<lambda>b. \<not> isHit laserX b) (bubbles s)"
proof -
  have "filter (\<lambda>b. bubble_id b \<notin> bubble_id ` set (filter (isHit laserX) (bubbles s))) (bubbles s)
      = filter (\<lambda>b. \<not> isHit laserX b) (bubbles s)"
    by (rule filter_cong) (simp_all only: hit_id_iff [OF assms])
  then show ?thesis
    by (simp add: checkHits_def collectHits_filter Let_def)
qed

lemma checkHits_score:
  "score (checkHits laserX s) = score s + int (length (filter (isHit laserX) (bubbles s)))"
  by (simp add: checkHits_def collectHits_filter Let_def)

lemma checkHits_frame:
  "checkHits laserX s =
     s\<lparr>score := score (checkHits laserX s), bubbles := bubbles (checkHits laserX s)\<rparr>"
  by (simp add: checkHits_def collectHits_filter Let_def)

lemma fireLaser_checkHits:
  "bubbles (fireLaser c s) = bubbles (checkHits (gunCenterX c) s) \<and>
   score (fireLaser c s) = score (checkHits (gunCenterX c) s)"
  by (simp add: fireLaser_def setTimeout_def clearTimeout_def checkHits_def
      collectHits_filter Let_def split: option.split)

text \<open>
  Claim C1, as stated, fails where a sum is not exact. With \<^verbatim>\<open>Math.random()\<close> at the
  double \<open>0.7\<close> on a window 400 wide, and the gun centred at 298, the distance
  \<open>|(x + radius) - laserX|\<close> is above the radius, by \<open>17 / 2 ^ 50\<close> (by \<open>1 / 2 ^ 45\<close> for
  the \<open>x\<close> the host stores); yet the bubble is removed and scored, since the sum
  \<open>x + radius\<close> rounds to 268.
\<close>

theorem hit_test_rounds_counterexample:
  "bubbles (run phone boundary_events (init phone)) =
     [\<lparr>bubble_id = 1, bubble_x = 238 - 17 / 2 ^ 50, bubble_y = 700, bubble_radius = 30\<rparr>] \<and>
   gunCenterX (run phone boundary_events (init phone)) = 298 \<and>
   \<not> \<bar>(238 - 17 / 2 ^ 50 + 30) - 298\<bar> \<le> (30::real) \<and>
   bubbles (run phone (boundary_events @ [TouchEnd 298 50]) (init phone)) = [] \<and>
   score (run phone (boundary_events @ [TouchEnd 298 50]) (init phone)) = 1 \<and>
   \<not> \<bar>(bubble_x boundary_bubble + bubble_radius boundary_bubble) - 298\<bar>
       \<le> bubble_radius boundary_bubble \<and>
   bubbles (checkHits 298 (init phone\<lparr>bubbles := [boundary_bubble]\<rparr>)) = [] \<and>
   score (checkHits 298 (init phone\<lparr>bubbles := [boundary_bubble]\<rparr>)) = 1"
  by code_simp

text \<open>
  Claim C1, amended. For a collection whose bubbles have distinct ids (as every
  collection the game builds has, see \<open>reachable_ids\<close>), a fire at \<open>laserX\<close> removes
  exactly the bubbles that pass the test as the host evaluates it: the centre is
  \<open>x + radius\<close> rounded to the nearest double, and the bubble is hit if and only if the
  distance of the centre from \<open>laserX\<close>, rounded again, is at most the radius. Where
  both results are exact, that is \<open>|(x + radius) - laserX| \<le> radius\<close>. All hit bubbles
  are removed in the one update of the collection, and their number is added to the
  score, which stays as it was when no bubble is hit. The same holds for \<open>fireLaser\<close>,
  which fires at the centre of the gun.
\<close>

theorem checkHits_removes_exactly_the_hits:
  assumes "distinct (map bubble_id (bubbles s))"
  shows "(\<forall>b. isHit laserX b \<longleftrightarrow>
              \<bar>fl (fl (bubble_x b + bubble_radius b) - laserX)\<bar> \<le> bubble_radius b) \<and>
         (\<forall>b. fl (bubble_x b + bubble_radius b) = bubble_x b + bubble_radius b \<and>
              fl (bubble_x b + bubble_radius b - laserX) = bubble_x b + bubble_radius b - laserX \<longrightarrow>
              (isHit laserX b \<longleftrightarrow>
                 \<bar>(bubble_x b + bubble_radius b) - laserX\<bar> \<le> bubble_radius b)) \<and>
         bubbles (checkHits laserX s) = filter (\<lambda>b. \<not> isHit laserX b) (bubbles s) \<and>
         score (checkHits laserX s) = score s + int (length (filter (isHit laserX) (bubbles s))) \<and>
         ((\<forall>b \<in> set (bubbles s). \<not> isHit laserX b) \<longrightarrow> score (checkHits laserX s) = score s) \<and>
         bubbles (fireLaser c s) = filter (\<lambda>b. \<not> isHit (gunCenterX c) b) (bubbles s) \<and>
         score (fireLaser c s) = score s + int (length (filter (isHit (gunCenterX c)) (bubbles s)))"
proof -
  have "\<forall>b. isHit laserX b \<longleftrightarrow>
              \<bar>fl (fl (bubble_x b + bubble_radius b) - laserX)\<bar> \<le> bubble_radius b"
    by (simp add: isHit_def)
  moreover have "\<forall>b. fl (bubble_x b + bubble_radius b) = bubble_x b + bubble_radius b \<and>
              fl (bubble_x b + bubble_radius b - laserX) = bubble_x b + bubble_radius b - laserX \<longrightarrow>
              (isHit laserX b \<longleftrightarrow>
                 \<bar>(bubble_x b + bubble_radius b) - laserX\<bar> \<le> bubble_radius b)"
    by (simp add: isHit_def)
  moreover have "(\<forall>b \<in> set (bubbles s). \<not> isHit laserX b) \<longrightarrow> score (checkHits laserX s) = score s"
    by (simp add: checkHits_score filter_empty_conv [THEN iffD2])
  ultimately show ?thesis
    using assms by (simp add: checkHits_bubbles checkHits_score fireLaser_checkHits)
qed

theorem checkHits_removes_exactly_the_hits_witness:
  "distinct (map bubble_id spec_bubbles) \<and>
   bubbles (checkHits 20 (init phone\<lparr>bubbles := spec_bubbles\<rparr>)) =
     [\<lparr>bubble_id = 2, bubble_x = 100, bubble_y = 40, bubble_radius = 30\<rparr>] \<and>
   score (checkHits 20 (init phone\<lparr>bubbles := spec_bubbles\<rparr>)) = 2 \<and>
   bubbles (checkHits 298 (init phone\<lparr>bubbles := [boundary_bubble]\<rparr>)) = [] \<and>
   score (checkHits 298 (init phone\<lparr>bubbles := [boundary_bubble]\<rparr>)) = 1"
proof -
  have d: "distinct (map bubble_id (bubbles (init phone\<lparr>bubbles := spec_bubbles\<rparr>)))"
    "distinct (map bubble_id (bubbles (init phone\<lparr>bubbles := [boundary_bubble]\<rparr>)))"
    by (simp_all add: spec_bubbles_def)
  have f: "filter (\<lambda>b. \<not> isHit 20 b) spec_bubbles =
      [\<lparr>bubble_id = 2, bubble_x = 100, bubble_y = 40, bubble_radius = 30\<rparr>]"
    "int (length (filter (isHit 20) spec_bubbles)) = 2"
    "isHit 298 boundary_bubble"
    by code_simp+
  have i: "score (init phone\<lparr>bubbles := spec_bubbles\<rparr>) = 0"
    "score (init phone\<lparr>bubbles := [boundary_bubble]\<rparr>) = 0"
    by (simp_all add: init_def)
  from checkHits_removes_exactly_the_hits [OF d(1), of 20 "init phone"]
    checkHits_removes_exactly_the_hits [OF d(2), of 298 "init phone"] d f i
  show ?thesis by simp
qed

section \<open>The frame of a fire\<close>

text \<open>
  Claim C10. A fire keeps every bubble that is not hit, with all its fields and in the
  order of the collection; it leaves the gun position and the time left as they were,
  and of the whole state it changes only the bubbles, the score, the laser flag and
  the bookkeeping of the laser timeout.
\<close>

theorem fireLaser_frame:
  assumes "distinct (map bubble_id (bubbles s))"
  shows "bubbles (fireLaser c s) = filter (\<lambda>b. \<not> isHit (gunCenterX c) b) (bubbles s) \<and>
         (\<forall>b \<in> set (bubbles s). \<not> isHit (gunCenterX c) b \<longrightarrow> b \<in> set (bubbles (fireLaser c s))) \<and>
         gunPosition (fireLaser c s) = gunPosition s \<and>
         timeLeft (fireLaser c s) = timeLeft s \<and>
         laserVisible (fireLaser c s) \<and>
         fireLaser c s =
           s\<lparr>bubbles := bubbles (fireLaser c s), score := score (fireLaser c s),
             laserVisible := True,
             laserTimeoutRef := laserTimeoutRef (fireLaser c s),
             timers := timers (fireLaser c s), nextHandle := nextHandle (fireLaser c s)\<rparr>"
proof -
  have b: "bubbles (fireLaser c s) = filter (\<lambda>b. \<not> isHit (gunCenterX c) b) (bubbles s)"
    using assms by (simp add: fireLaser_checkHits checkHits_bubbles)
  have f: "fireLaser c s =
           s\<lparr>bubbles := bubbles (fireLaser c s), score := score (fireLaser c s),
             laserVisible := True,
             laserTimeoutRef := laserTimeoutRef (fireLaser c s),
             timers := timers (fireLaser c s), nextHandle := nextHandle (fireLaser c s)\<rparr>"
    by (simp add: fireLaser_def setTimeout_def clearTimeout_def checkHits_def
      collectHits_filter Let_def split: option.split)
  have g: "gunPosition (fireLaser c s) = gunPosition s"
    by (subst f) simp
  have t: "timeLeft (fireLaser c s) = timeLeft s"
    by (subst f) simp
  have l: "laserVisible (fireLaser c s)"
    by (subst f) simp
  from b have m: "\<forall>b \<in> set (bubbles s). \<not> isHit (gunCenterX c) b \<longrightarrow> b \<in> set (bubbles (fireLaser c s))"
    by simp
  from b m g t l f show ?thesis by blast
qed

theorem fireLaser_frame_witness:
  "distinct (map bubble_id spec_bubbles) \<and>
   bubbles (fireLaser (init phone\<lparr>gunPosition := 100\<rparr>) (init phone\<lparr>bubbles := spec_bubbles\<rparr>)) =
     [\<lparr>bubble_id = 1, bubble_x = 0, bubble_y = 500, bubble_radius = 30\<rparr>,
      \<lparr>bubble_id = 3, bubble_x = 10, bubble_y = 300, bubble_radius = 30\<rparr>] \<and>
   gunPosition (fireLaser (init phone\<lparr>gunPosition := 100\<rparr>) (init phone\<lparr>bubbles := spec_bubbles\<rparr>)) = 170 \<and>
   timeLeft (fireLaser (init phone\<lparr>gunPosition := 100\<rparr>) (init phone\<lparr>bubbles := spec_bubbles\<rparr>)) = 120"
proof -
  have d: "distinct (map bubble_id (bubbles (init phone\<lparr>bubbles := spec_bubbles\<rparr>)))"
    by (simp add: spec_bubbles_def)
  have f: "filter (\<lambda>b. \<not> isHit (gunCenterX (init phone\<lparr>gunPosition := 100\<rparr>)) b) spec_bubbles =
      [\<lparr>bubble_id = 1, bubble_x = 0, bubble_y = 500, bubble_radius = 30\<rparr>,
       \<lparr>bubble_id = 3, bubble_x = 10, bubble_y = 300, bubble_radius = 30\<rparr>]"
    by code_simp
  have i: "gunPosition (init phone\<lparr>bubbles := spec_bubbles\<rparr>) = 170"
    "timeLeft (init phone\<lparr>bubbles := spec_bubbles\<rparr>) = 120"
    by (simp_all add: init_def phone_def gunWidth_def)
  from fireLaser_frame [OF d, of "init phone\<lparr>gunPosition := 100\<rparr>"] d f i
  show ?thesis by simp
qed

section \<open>The motion tick\<close>

text \<open>
  Claim C3. A motion tick lowers the \<open>y\<close> of every bubble by exactly 2 and leaves its
  id, \<open>x\<close> and radius alone; a bubble stays in the collection if and only if its new
  \<open>y\<close> is above \<open>-60\<close>, so none with new \<open>y \<le> -60\<close> remains. Nothing else of the
  state changes.
\<close>

theorem moveTick_moves_and_culls:
  "bubbles (moveTick s) =
     map (\<lambda>b. b\<lparr>bubble_y := bubble_y b - 2\<rparr>) (filter (\<lambda>b. bubble_y b - 2 > - 60) (bubbles s)) \<and>
   (\<forall>b \<in> set (bubbles s).
      (b\<lparr>bubble_y := bubble_y b - 2\<rparr> \<in> set (bubbles (moveTick s))) = (bubble_y b - 2 > - 60)) \<and>
   (\<forall>b' \<in> set (bubbles (moveTick s)). bubble_y b' > - 60 \<and>
      (\<exists>b \<in> set (bubbles s). bubble_y b' = bubble_y b - 2 \<and> bubble_id b' = bubble_id b \<and>
          bubble_x b' = bubble_x b \<and> bubble_radius b' = bubble_radius b)) \<and>
   moveTick s = s\<lparr>bubbles := bubbles (moveTick s)\<rparr>"
proof -
  have e: "bubbles (moveTick s) =
     map (\<lambda>b. b\<lparr>bubble_y := bubble_y b - 2\<rparr>) (filter (\<lambda>b. bubble_y b - 2 > - 60) (bubbles s))"
    by (simp add: moveTick_def filter_map comp_def)
  have a: "\<forall>b \<in> set (bubbles s).
      (b\<lparr>bubble_y := bubble_y b - 2\<rparr> \<in> set (bubbles (moveTick s))) = (bubble_y b - 2 > - 60)"
  proof
    fix b assume "b \<in> set (bubbles s)"
    then show "(b\<lparr>bubble_y := bubble_y b - 2\<rparr> \<in> set (bubbles (moveTick s))) = (bubble_y b - 2 > - 60)"
      by (force simp: moveTick_def)
  qed
  have c: "\<forall>b' \<in> set (bubbles (moveTick s)). bubble_y b' > - 60 \<and>
      (\<exists>b \<in> set (bubbles s). bubble_y b' = bubble_y b - 2 \<and> bubble_id b' = bubble_id b \<and>
          bubble_x b' = bubble_x b \<and> bubble_radius b' = bubble_radius b)"
    by (auto simp: moveTick_def)
  have f: "moveTick s = s\<lparr>bubbles := bubbles (moveTick s)\<rparr>"
    by (simp add: moveTick_def)
  from e a c f show ?thesis by blast
qed

theorem moveTick_moves_and_culls_witness:
  "bubbles (moveTick (init phone\<lparr>bubbles := rising\<rparr>)) =
     [\<lparr>bubble_id = 2, bubble_x = 100, bubble_y = 38, bubble_radius = 30\<rparr>] \<and>
   \<lparr>bubble_id = 1, bubble_x = 0, bubble_y = - 60, bubble_radius = 30\<rparr>
     \<notin> set (bubbles (moveTick (init phone\<lparr>bubbles := rising\<rparr>)))"
  using moveTick_moves_and_culls [of "init phone\<lparr>bubbles := rising\<rparr>"]
  by (simp add: rising_def init_def)

section \<open>Spawning\<close>

text \<open>
  Claim C4. On a window at least as wide as a bubble (60), for every value \<open>r\<close> of the
  random source in \<open>[0, 1)\<close> the spawned bubble is appended to the collection with
  \<open>0 \<le> x \<le> screenWidth - 2 * radius\<close>, \<open>y = screenHeight - 100\<close>, radius 30 and the
  current value of the id counter, which the spawn increments by one; the counter
  starts at 1 and \<open>startGame\<close> sets it back to 1.
\<close>

theorem spawnBubble_placement:
  assumes "0 \<le> r" and "r < 1" and "60 \<le> screenWidth g"
  shows "butlast (bubbles (spawnBubble g r s)) = bubbles s \<and>
         bubbles (spawnBubble g r s) \<noteq> [] \<and>
         0 \<le> bubble_x (last (bubbles (spawnBubble g r s))) \<and>
         bubble_x (last (bubbles (spawnBubble g r s)))
           \<le> screenWidth g - 2 * bubble_radius (last (bubbles (spawnBubble g r s))) \<and>
         bubble_y (last (bubbles (spawnBubble g r s))) = screenHeight g - 100 \<and>
         bubble_radius (last (bubbles (spawnBubble g r s))) = 30 \<and>
         bubble_id (last (bubbles (spawnBubble g r s))) = bubbleIdRef s \<and>
         bubbleIdRef (spawnBubble g r s) = bubbleIdRef s + 1 \<and>
         bubbleIdRef (init g) = 1 \<and>
         bubbleIdRef (startGame s) = 1 \<and>
         bubbles (startGame s) = []"
proof -
  have "0 \<le> r * (screenWidth g - 60)"
    using assms by simp
  moreover have "r * (screenWidth g - 60) \<le> 1 * (screenWidth g - 60)"
    using assms by (intro mult_right_mono) simp_all
  moreover have "bubbleIdRef (startGame s) = 1 \<and> bubbles (startGame s) = []"
    by (simp add: startGame_def setInterval_def)
  ultimately show ?thesis
    by (simp add: spawnBubble_def init_def)
qed

theorem spawnBubble_placement_witness:
  "(0::real) \<le> 1 / 2 \<and> (1::real) / 2 < 1 \<and> 60 \<le> screenWidth phone \<and>
   bubbles (spawnBubble phone (1 / 2) (init phone)) =
     [\<lparr>bubble_id = 1, bubble_x = 170, bubble_y = 700, bubble_radius = 30\<rparr>] \<and>
   bubbleIdRef (spawnBubble phone (1 / 2) (init phone)) = 2"
proof -
  have h: "(0::real) \<le> 1 / 2" "(1::real) / 2 < 1" "60 \<le> screenWidth phone"
    by (simp_all add: phone_def)
  from spawnBubble_placement [OF h, of "init phone"] h show ?thesis
    by (simp add: spawnBubble_def init_def phone_def)
qed

section \<open>Reset\<close>

text \<open>
  Claim C7. After \<open>resetGame\<close>, from any state, and after the render and effect that
  follow it: no bubbles, score 0, 120 seconds left, laser hidden, neither started nor
  over, and the gun where it was.
\<close>

theorem resetGame_clears_round:
  "bubbles (resetGame s) = [] \<and> score (resetGame s) = 0 \<and> timeLeft (resetGame s) = 120 \<and>
   \<not> laserVisible (resetGame s) \<and> \<not> gameStarted (resetGame s) \<and> \<not> gameOver (resetGame s) \<and>
   gunPosition (resetGame s) = gunPosition s \<and>
   bubbles (moveEffect p (resetGame s)) = [] \<and> score (moveEffect p (resetGame s)) = 0 \<and>
   timeLeft (moveEffect p (resetGame s)) = 120 \<and> \<not> laserVisible (moveEffect p (resetGame s)) \<and>
   \<not> gameStarted (moveEffect p (resetGame s)) \<and> \<not> gameOver (moveEffect p (resetGame s)) \<and>
   gunPosition (moveEffect p (resetGame s)) = gunPosition s"
  by (simp add: resetGame_def moveEffect_def clearInterval_def setInterval_def Let_def
      split: option.split)

theorem resetGame_clears_round_witness:
  "bubbles (resetGame played) = [] \<and> score (resetGame played) = 0 \<and>
   timeLeft (resetGame played) = 120 \<and> gunPosition (resetGame played) = 270 \<and>
   gunPosition (moveEffect played (resetGame played)) = 270"
  using resetGame_clears_round [of played played]
  by (simp add: played_def init_def)

section \<open>Invariants of the reachable states\<close>

text \<open>
  The effect touches the timers only; every handler keeps the bubble ids distinct and
  below the counter, the clock within its bounds and the timer table in step with the
  refs.
\<close>

lemma init_ok: "ids_ok (init g) \<and> clock_ok (init g) \<and> timers_ok (init g)"
  by (simp add: init_def ids_ok_def clock_ok_def timers_ok_def periodic_def)

lemma moveEffect_fields [simp]:
  "bubbles (moveEffect p s) = bubbles s"
  "bubbleIdRef (moveEffect p s) = bubbleIdRef s"
  "gunPosition (moveEffect p s) = gunPosition s"
  "timeLeft (moveEffect p s) = timeLeft s"
  "score (moveEffect p s) = score s"
  "gameStarted (moveEffect p s) = gameStarted s"
  "gameOver (moveEffect p s) = gameOver s"
  "laserVisible (moveEffect p s) = laserVisible s"
  "timerRef (moveEffect p s) = timerRef s"
  "bubbleTimerRef (moveEffect p s) = bubbleTimerRef s"
  "laserTimeoutRef (moveEffect p s) = laserTimeoutRef s"
  by (simp_all add: moveEffect_def setInterval_def clearInterval_def Let_def split: option.split)

lemma ids_ok_moveEffect [simp]: "ids_ok (moveEffect p s) = ids_ok s"
  by (simp add: ids_ok_def)

lemma clock_ok_moveEffect [simp]: "clock_ok (moveEffect p s) = clock_ok s"
  by (simp add: clock_ok_def)

lemma gun_in_range_moveEffect [simp]: "gun_in_range g (moveEffect p s) = gun_in_range g s"
  by (simp add: gun_in_range_def)

lemma fireLaser_fields [simp]:
  "bubbleIdRef (fireLaser c s) = bubbleIdRef s"
  "gunPosition (fireLaser c s) = gunPosition s"
  "timeLeft (fireLaser c s) = timeLeft s"
  "gameStarted (fireLaser c s) = gameStarted s"
  "gameOver (fireLaser c s) = gameOver s"
  "timerRef (fireLaser c s) = timerRef s"
  "bubbleTimerRef (fireLaser c s) = bubbleTimerRef s"
  "moveInterval (fireLaser c s) = moveInterval s"
  "laserTimeoutRef (fireLaser c s) = Some (nextHandle s)"
  "nextHandle (fireLaser c s) = Suc (nextHandle s)"
  "laserVisible (fireLaser c s) = True"
  by (simp_all add: fireLaser_def setTimeout_def clearTimeout_def checkHits_def
      collectHits_filter Let_def split: option.split)

lemma fireLaser_bubbles:
  "bubbles (fireLaser c s) =
     filter (\<lambda>b. bubble_id b \<notin> bubble_id ` set (filter (isHit (gunCenterX c)) (bubbles s))) (bubbles s)"
  by (simp add: fireLaser_def setTimeout_def clearTimeout_def checkHits_def
      collectHits_filter Let_def split: option.split)

lemma fireLaser_timers:
  "timers (fireLaser c s) =
     filter (\<lambda>e. Some (fst e) \<noteq> laserTimeoutRef s) (timers s) @ [(nextHandle s, HideLaser)]"
  by (simp add: fireLaser_def setTimeout_def clearTimeout_def checkHits_def
      collectHits_filter Let_def split: option.split)

lemma ids_ok_fireLaser: "ids_ok s \<Longrightarrow> ids_ok (fireLaser c s)"
  by (simp add: ids_ok_def fireLaser_bubbles distinct_map_filter list_all_iff)

lemma moveTick_ids:
  "map bubble_id (bubbles (moveTick s)) =
     map bubble_id (filter (\<lambda>b. bubble_y b - 2 > - 60) (bubbles s))"
  by (simp add: moveTick_def filter_map comp_def)

lemma ids_ok_moveTick: "ids_ok s \<Longrightarrow> ids_ok (moveTick s)"
proof -
  assume a: "ids_ok s"
  have "list_all (\<lambda>b. bubble_id b < bubbleIdRef s) (bubbles (moveTick s))"
    using a by (auto simp: ids_ok_def moveTick_def list_all_iff)
  moreover have "bubbleIdRef (moveTick s) = bubbleIdRef s"
    by (simp add: moveTick_def)
  ultimately show ?thesis
    using a by (simp add: ids_ok_def moveTick_ids distinct_map_filter)
qed

lemma ids_ok_spawnBubble: "ids_ok s \<Longrightarrow> ids_ok (spawnBubble g r s)"
  by (auto simp: ids_ok_def spawnBubble_def list_all_iff)

lemma ids_ok_countdownTick: "ids_ok s \<Longrightarrow> ids_ok (countdownTick s)"
  by (simp add: ids_ok_def countdownTick_def clearRef_def clearInterval_def Let_def
      split: option.split)

lemma ids_ok_fireTimer: "ids_ok s \<Longrightarrow> ids_ok (fireTimer g h r s)"
  by (simp add: fireTimer_def ids_ok_spawnBubble ids_ok_countdownTick ids_ok_moveTick
      split: option.split task.split) (simp add: ids_ok_def clearTimeout_def)

lemma ids_ok_startGame: "ids_ok (startGame s)"
  by (simp add: ids_ok_def startGame_def setInterval_def)

lemma ids_ok_resetGame: "ids_ok (resetGame s)"
  by (simp add: ids_ok_def resetGame_def clearInterval_def Let_def split: option.split)

lemma ids_ok_dispatch: "ids_ok s \<Longrightarrow> ids_ok (dispatch g e s)"
  by (cases e)
    (simp_all add: dispatch_def ids_ok_startGame ids_ok_resetGame ids_ok_fireTimer
      handleTap_def ids_ok_fireLaser,
     simp_all add: ids_ok_def onPanResponderGrant_def onPanResponderMove_def)

lemma ids_ok_ui: "ids_ok s \<Longrightarrow> ids_ok (ui g e s)"
  by (simp add: ui_def ids_ok_dispatch)

lemma reachable_ids: "s \<in> reachable g \<Longrightarrow> ids_ok s"
  by (induction rule: reachable.induct) (simp_all add: init_ok ids_ok_ui)

lemma moveEffect_same:
  "gameStarted s' = gameStarted s \<Longrightarrow> gameOver s' = gameOver s \<Longrightarrow> moveEffect s s' = s'"
  by (simp add: moveEffect_def)

lemma clock_ok_dispatch: "clock_ok s \<Longrightarrow> clock_ok (dispatch g e s)"
  by (cases e)
    (auto simp: dispatch_def clock_ok_def startGame_def resetGame_def setInterval_def
      clearInterval_def Let_def handleTap_def onPanResponderGrant_def onPanResponderMove_def
      fireTimer_def spawnBubble_def countdownTick_def moveTick_def clearRef_def clearTimeout_def
      split: option.split task.split)

lemma clock_ok_ui: "clock_ok s \<Longrightarrow> clock_ok (ui g e s)"
  by (simp add: ui_def clock_ok_dispatch)

lemma gun_dispatch:
  assumes "60 \<le> screenWidth g" and "gun_in_range g s"
  shows "gun_in_range g (dispatch g e s)"
  using assms
  by (cases e)
    (auto simp: dispatch_def gun_in_range_def startGame_def resetGame_def setInterval_def
      clearInterval_def Let_def handleTap_def onPanResponderGrant_def onPanResponderMove_def
      fireTimer_def spawnBubble_def countdownTick_def moveTick_def clearRef_def clearTimeout_def
      gunWidth_def
      split: option.split task.split)

lemma fresh_handle:
  "list_all (\<lambda>e. fst e < (n::nat)) xs \<Longrightarrow> n \<le> m \<Longrightarrow> m \<notin> fst ` set xs"
  by (fastforce simp: list_all_iff)

lemma list_all_less_mono:
  "list_all (\<lambda>e. fst e < (n::nat)) xs \<Longrightarrow> n \<le> m \<Longrightarrow> list_all (\<lambda>e. fst e < m) xs"
  by (auto simp: list_all_iff)

lemma start_effect:
  assumes "\<not> gameStarted s" "\<not> gameOver s" "moveInterval s = None"
  shows "timers (moveEffect s (startGame s)) =
           timers s @ [(nextHandle s, SpawnBubble), (Suc (nextHandle s), Countdown),
                       (Suc (Suc (nextHandle s)), MoveBubbles)]"
    "nextHandle (moveEffect s (startGame s)) = Suc (Suc (Suc (nextHandle s)))"
    "moveInterval (moveEffect s (startGame s)) = Some (Suc (Suc (nextHandle s)))"
    "bubbleTimerRef (startGame s) = Some (nextHandle s)"
    "timerRef (startGame s) = Some (Suc (nextHandle s))"
    "laserTimeoutRef (startGame s) = laserTimeoutRef s"
    "gameStarted (startGame s)" "\<not> gameOver (startGame s)"
  using assms
  by (simp_all add: moveEffect_def startGame_def setInterval_def Let_def)

lemma timers_ok_start:
  assumes "timers_ok s" "\<not> gameStarted s" "\<not> gameOver s"
  shows "timers_ok (moveEffect s (startGame s))"
proof -
  from assms have m: "moveInterval s = None" and p: "periodic s = []"
    and d: "distinct (map fst (timers s))"
    and l: "list_all (\<lambda>e. fst e < nextHandle s) (timers s)"
    and h: "list_all (\<lambda>e. (snd e = HideLaser) = (laserTimeoutRef s = Some (fst e))) (timers s)"
    and r: "\<forall>h \<in> set_option (laserTimeoutRef s). h < nextHandle s"
    by (simp_all add: timers_ok_def)
  note e = start_effect [OF assms(2,3) m]
  have f: "nextHandle s \<notin> fst ` set (timers s)" "Suc (nextHandle s) \<notin> fst ` set (timers s)"
     "Suc (Suc (nextHandle s)) \<notin> fst ` set (timers s)"
    using l by (simp_all add: fresh_handle)
  have 1: "distinct (map fst (timers (moveEffect s (startGame s))))"
    using d f by (simp add: e)
  have 2: "list_all (\<lambda>x. fst x < nextHandle (moveEffect s (startGame s))) (timers (moveEffect s (startGame s)))"
    using list_all_less_mono [OF l, of "Suc (Suc (Suc (nextHandle s)))"] by (simp add: e)
  have 3: "list_all (\<lambda>x. (snd x = HideLaser) = (laserTimeoutRef (moveEffect s (startGame s)) = Some (fst x)))
             (timers (moveEffect s (startGame s)))"
    using h r by (auto simp add: e split: option.splits)
  have 4: "\<forall>h \<in> set_option (laserTimeoutRef (moveEffect s (startGame s))).
             h < nextHandle (moveEffect s (startGame s))"
    using r by (auto simp add: e)
  have 5: "periodic (moveEffect s (startGame s)) =
     [(the (bubbleTimerRef (moveEffect s (startGame s))), SpawnBubble),
      (the (timerRef (moveEffect s (startGame s))), Countdown),
      (the (moveInterval (moveEffect s (startGame s))), MoveBubbles)]"
    using p by (simp add: periodic_def e)
  from 1 2 3 4 5 show ?thesis
    by (simp add: timers_ok_def e)
qed

lemma timers_okI:
  assumes "distinct (map fst (timers s))"
    and "list_all (\<lambda>e. fst e < nextHandle s) (timers s)"
    and "list_all (\<lambda>e. (snd e = HideLaser) = (laserTimeoutRef s = Some (fst e))) (timers s)"
    and "\<forall>h \<in> set_option (laserTimeoutRef s). h < nextHandle s"
    and "if gameStarted s \<and> \<not> gameOver s
      then bubbleTimerRef s \<noteq> None \<and> timerRef s \<noteq> None \<and> moveInterval s \<noteq> None \<and>
           periodic s = [(the (bubbleTimerRef s), SpawnBubble), (the (timerRef s), Countdown),
                         (the (moveInterval s), MoveBubbles)]
      else periodic s = [] \<and> moveInterval s = None"
  shows "timers_ok s"
  using assms unfolding timers_ok_def by blast

lemma timers_ok_cong:
  assumes "timers_ok s"
    and "timers s' = timers s" "nextHandle s' = nextHandle s"
    and "laserTimeoutRef s' = laserTimeoutRef s" "bubbleTimerRef s' = bubbleTimerRef s"
    and "timerRef s' = timerRef s" "moveInterval s' = moveInterval s"
    and "gameStarted s' = gameStarted s" "gameOver s' = gameOver s"
  shows "timers_ok s'"
  using assms unfolding timers_ok_def periodic_def by simp

lemma reset_effect:
  assumes "moveInterval s = None"
  shows "timers (moveEffect s (resetGame s)) =
           filter (\<lambda>e. Some (fst e) \<noteq> bubbleTimerRef s)
             (filter (\<lambda>e. Some (fst e) \<noteq> timerRef s) (timers s))"
    "nextHandle (moveEffect s (resetGame s)) = nextHandle s"
    "moveInterval (moveEffect s (resetGame s)) = None"
    "laserTimeoutRef (resetGame s) = laserTimeoutRef s"
    "\<not> gameStarted (resetGame s)" "\<not> gameOver (resetGame s)"
  using assms
  by (simp_all add: moveEffect_def resetGame_def clearInterval_def Let_def split: option.split)

lemma periodic_filter_empty:
  "filter Q xs = [] \<Longrightarrow> filter Q (filter P xs) = []"
  by (simp add: filter_empty_conv)

lemma timers_ok_reset:
  assumes "timers_ok s" "gameOver s"
  shows "timers_ok (moveEffect s (resetGame s))"
proof (rule timers_okI)
  from assms have m: "moveInterval s = None" and p: "periodic s = []"
    and d: "distinct (map fst (timers s))"
    and l: "list_all (\<lambda>e. fst e < nextHandle s) (timers s)"
    and h: "list_all (\<lambda>e. (snd e = HideLaser) = (laserTimeoutRef s = Some (fst e))) (timers s)"
    and r: "\<forall>h \<in> set_option (laserTimeoutRef s). h < nextHandle s"
    by (simp_all add: timers_ok_def)
  note e = reset_effect [OF m]
  let ?s = "moveEffect s (resetGame s)"
  show "distinct (map fst (timers ?s))"
    using d by (simp add: e distinct_map_filter)
  show "list_all (\<lambda>e. fst e < nextHandle ?s) (timers ?s)"
    using l by (simp add: e list_all_iff)
  show "list_all (\<lambda>e. (snd e = HideLaser) = (laserTimeoutRef ?s = Some (fst e))) (timers ?s)"
    using h by (simp add: e list_all_iff)
  show "\<forall>h \<in> set_option (laserTimeoutRef ?s). h < nextHandle ?s"
    using r by (simp add: e)
  show "if gameStarted ?s \<and> \<not> gameOver ?s
      then bubbleTimerRef ?s \<noteq> None \<and> timerRef ?s \<noteq> None \<and> moveInterval ?s \<noteq> None \<and>
           periodic ?s = [(the (bubbleTimerRef ?s), SpawnBubble), (the (timerRef ?s), Countdown),
                         (the (moveInterval ?s), MoveBubbles)]
      else periodic ?s = [] \<and> moveInterval ?s = None"
    using p by (auto simp add: e periodic_def filter_empty_conv)
qed

lemma timers_ok_touch:
  assumes "timers_ok s"
  shows "timers_ok (onPanResponderGrant g now x0 s)" "timers_ok (onPanResponderMove g moveX s)"
  by (rule timers_ok_cong [OF assms],
      simp_all add: onPanResponderGrant_def onPanResponderMove_def Let_def)+

lemma timers_ok_fireLaser:
  assumes "timers_ok s"
  shows "timers_ok (fireLaser c s)"
proof (rule timers_okI)
  from assms have d: "distinct (map fst (timers s))"
    and l: "list_all (\<lambda>e. fst e < nextHandle s) (timers s)"
    and h: "list_all (\<lambda>e. (snd e = HideLaser) = (laserTimeoutRef s = Some (fst e))) (timers s)"
    and i: "if gameStarted s \<and> \<not> gameOver s
      then bubbleTimerRef s \<noteq> None \<and> timerRef s \<noteq> None \<and> moveInterval s \<noteq> None \<and>
           periodic s = [(the (bubbleTimerRef s), SpawnBubble), (the (timerRef s), Countdown),
                         (the (moveInterval s), MoveBubbles)]
      else periodic s = [] \<and> moveInterval s = None"
    by (simp_all add: timers_ok_def)
  let ?s = "fireLaser c s"
  let ?keep = "\<lambda>e. Some (fst e) \<noteq> laserTimeoutRef s"
  have f: "nextHandle s \<notin> fst ` set (timers s)"
    using l by (simp add: fresh_handle)
  then have f': "nextHandle s \<notin> fst ` set (filter ?keep (timers s))"
    by auto
  from d have "distinct (map fst (filter ?keep (timers s)))"
    by (rule distinct_map_filter)
  with f' show "distinct (map fst (timers ?s))"
    by (simp add: fireLaser_timers)
  have "list_all (\<lambda>e. fst e < Suc (nextHandle s)) (filter ?keep (timers s))"
    using list_all_less_mono [OF l, of "Suc (nextHandle s)"] by (simp add: list_all_iff)
  then show "list_all (\<lambda>e. fst e < nextHandle ?s) (timers ?s)"
    by (simp add: fireLaser_timers)
  have "list_all (\<lambda>e. (snd e = HideLaser) = (nextHandle s = fst e)) (filter ?keep (timers s))"
    unfolding list_all_iff
  proof
    fix e assume "e \<in> set (filter ?keep (timers s))"
    then have m: "e \<in> set (timers s)" and k: "Some (fst e) \<noteq> laserTimeoutRef s"
      by simp_all
    from m h have "(snd e = HideLaser) = (laserTimeoutRef s = Some (fst e))"
      by (simp add: list_all_iff)
    with k have 1: "snd e \<noteq> HideLaser" by metis
    from m l have "fst e < nextHandle s"
      by (simp add: list_all_iff)
    then have 2: "nextHandle s \<noteq> fst e" by simp
    from 1 2 show "(snd e = HideLaser) = (nextHandle s = fst e)" by simp
  qed
  then show "list_all (\<lambda>e. (snd e = HideLaser) = (laserTimeoutRef ?s = Some (fst e))) (timers ?s)"
    by (simp add: fireLaser_timers)
  show "\<forall>h \<in> set_option (laserTimeoutRef ?s). h < nextHandle ?s"
    by simp
  have "filter (\<lambda>e. snd e \<noteq> HideLaser) (filter ?keep (timers s))
      = filter (\<lambda>e. snd e \<noteq> HideLaser) (timers s)"
    unfolding filter_filter
  proof (rule filter_cong [OF refl])
    fix e assume "e \<in> set (timers s)"
    with h have "(snd e = HideLaser) = (laserTimeoutRef s = Some (fst e))"
      by (simp add: list_all_iff)
    then show "(?keep e \<and> snd e \<noteq> HideLaser) = (snd e \<noteq> HideLaser)"
      by metis
  qed
  then have "periodic ?s = periodic s"
    by (simp add: periodic_def fireLaser_timers)
  with i show "if gameStarted ?s \<and> \<not> gameOver ?s
      then bubbleTimerRef ?s \<noteq> None \<and> timerRef ?s \<noteq> None \<and> moveInterval ?s \<noteq> None \<and>
           periodic ?s = [(the (bubbleTimerRef ?s), SpawnBubble), (the (timerRef ?s), Countdown),
                         (the (moveInterval ?s), MoveBubbles)]
      else periodic ?s = [] \<and> moveInterval ?s = None"
    by simp
qed

lemma filter_swap: "filter P (filter Q xs) = filter Q (filter P xs)"
  by (induction xs) simp_all

lemma gameover_effect:
  assumes "gameStarted s" "\<not> gameOver s" "timeLeft s \<le> 1"
  shows "timers (moveEffect s (countdownTick s)) =
           filter (\<lambda>e. Some (fst e) \<noteq> moveInterval s)
             (filter (\<lambda>e. Some (fst e) \<noteq> bubbleTimerRef s)
               (filter (\<lambda>e. Some (fst e) \<noteq> timerRef s) (timers s)))"
    "nextHandle (moveEffect s (countdownTick s)) = nextHandle s"
    "moveInterval (moveEffect s (countdownTick s)) = None"
    "laserTimeoutRef (countdownTick s) = laserTimeoutRef s"
    "gameStarted (countdownTick s)" "gameOver (countdownTick s)"
    "timeLeft (countdownTick s) = 0" "bubbles (countdownTick s) = bubbles s"
  using assms
  by (simp_all add: moveEffect_def countdownTick_def clearRef_def clearInterval_def Let_def
      split: option.split)

lemma timers_ok_gameover:
  assumes "timers_ok s" "gameStarted s" "\<not> gameOver s" "timeLeft s \<le> 1"
  shows "timers_ok (moveEffect s (countdownTick s))"
proof (rule timers_okI)
  from assms have d: "distinct (map fst (timers s))"
    and l: "list_all (\<lambda>e. fst e < nextHandle s) (timers s)"
    and h: "list_all (\<lambda>e. (snd e = HideLaser) = (laserTimeoutRef s = Some (fst e))) (timers s)"
    and r: "\<forall>h \<in> set_option (laserTimeoutRef s). h < nextHandle s"
    and i: "bubbleTimerRef s \<noteq> None" "timerRef s \<noteq> None" "moveInterval s \<noteq> None"
           "periodic s = [(the (bubbleTimerRef s), SpawnBubble), (the (timerRef s), Countdown),
                         (the (moveInterval s), MoveBubbles)]"
    by (simp_all add: timers_ok_def)
  note e = gameover_effect [OF assms(2-4)]
  let ?s = "moveEffect s (countdownTick s)"
  show "distinct (map fst (timers ?s))"
    using d by (simp add: e distinct_map_filter)
  show "list_all (\<lambda>e. fst e < nextHandle ?s) (timers ?s)"
    using l by (simp add: e list_all_iff)
  show "list_all (\<lambda>e. (snd e = HideLaser) = (laserTimeoutRef ?s = Some (fst e))) (timers ?s)"
    using h by (simp add: e list_all_iff)
  show "\<forall>h \<in> set_option (laserTimeoutRef ?s). h < nextHandle ?s"
    using r by (simp add: e)
  have "periodic ?s = filter (\<lambda>e. Some (fst e) \<noteq> moveInterval s)
             (filter (\<lambda>e. Some (fst e) \<noteq> bubbleTimerRef s)
               (filter (\<lambda>e. Some (fst e) \<noteq> timerRef s) (periodic s)))"
    unfolding periodic_def e by (simp only: filter_swap [of "\<lambda>e. snd e \<noteq> HideLaser"])
  also have "\<dots> = []"
    using i(1-3) by (auto simp add: i(4))
  finally show "if gameStarted ?s \<and> \<not> gameOver ?s
      then bubbleTimerRef ?s \<noteq> None \<and> timerRef ?s \<noteq> None \<and> moveInterval ?s \<noteq> None \<and>
           periodic ?s = [(the (bubbleTimerRef ?s), SpawnBubble), (the (timerRef ?s), Countdown),
                         (the (moveInterval ?s), MoveBubbles)]
      else periodic ?s = [] \<and> moveInterval ?s = None"
    by (simp add: e)
qed

lemma timers_ok_hide:
  assumes "timers_ok s" "(h, HideLaser) \<in> set (timers s)"
  shows "timers_ok ((clearTimeout h s)\<lparr>laserVisible := False\<rparr>)"
proof (rule timers_okI)
  from assms have d: "distinct (map fst (timers s))"
    and l: "list_all (\<lambda>e. fst e < nextHandle s) (timers s)"
    and hl: "list_all (\<lambda>e. (snd e = HideLaser) = (laserTimeoutRef s = Some (fst e))) (timers s)"
    and r: "\<forall>h \<in> set_option (laserTimeoutRef s). h < nextHandle s"
    and i: "if gameStarted s \<and> \<not> gameOver s
      then bubbleTimerRef s \<noteq> None \<and> timerRef s \<noteq> None \<and> moveInterval s \<noteq> None \<and>
           periodic s = [(the (bubbleTimerRef s), SpawnBubble), (the (timerRef s), Countdown),
                         (the (moveInterval s), MoveBubbles)]
      else periodic s = [] \<and> moveInterval s = None"
    by (simp_all add: timers_ok_def)
  let ?s = "(clearTimeout h s)\<lparr>laserVisible := False\<rparr>"
  have t: "timers ?s = filter (\<lambda>e. fst e \<noteq> h) (timers s)"
    by (simp add: clearTimeout_def)
  have o: "nextHandle ?s = nextHandle s" "laserTimeoutRef ?s = laserTimeoutRef s"
    "gameStarted ?s = gameStarted s" "gameOver ?s = gameOver s"
    "bubbleTimerRef ?s = bubbleTimerRef s" "timerRef ?s = timerRef s"
    "moveInterval ?s = moveInterval s"
    by (simp_all add: clearTimeout_def)
  show "distinct (map fst (timers ?s))"
    using d by (simp add: t distinct_map_filter)
  show "list_all (\<lambda>e. fst e < nextHandle ?s) (timers ?s)"
    using l by (simp add: t o list_all_iff)
  show "list_all (\<lambda>e. (snd e = HideLaser) = (laserTimeoutRef ?s = Some (fst e))) (timers ?s)"
    using hl by (simp add: t o list_all_iff)
  show "\<forall>h \<in> set_option (laserTimeoutRef ?s). h < nextHandle ?s"
    using r by (simp add: o)
  from assms(2) hl have ref: "laserTimeoutRef s = Some h"
    by (auto simp: list_all_iff)
  have "filter (\<lambda>e. snd e \<noteq> HideLaser) (filter (\<lambda>e. fst e \<noteq> h) (timers s))
      = filter (\<lambda>e. snd e \<noteq> HideLaser) (timers s)"
    unfolding filter_filter
  proof (rule filter_cong [OF refl])
    fix e assume "e \<in> set (timers s)"
    with hl have "(snd e = HideLaser) = (laserTimeoutRef s = Some (fst e))"
      by (simp add: list_all_iff)
    with ref show "(fst e \<noteq> h \<and> snd e \<noteq> HideLaser) = (snd e \<noteq> HideLaser)"
      by auto
  qed
  then have "periodic ?s = periodic s"
    by (simp add: periodic_def t)
  with i show "if gameStarted ?s \<and> \<not> gameOver ?s
      then bubbleTimerRef ?s \<noteq> None \<and> timerRef ?s \<noteq> None \<and> moveInterval ?s \<noteq> None \<and>
           periodic ?s = [(the (bubbleTimerRef ?s), SpawnBubble), (the (timerRef ?s), Countdown),
                         (the (moveInterval ?s), MoveBubbles)]
      else periodic ?s = [] \<and> moveInterval ?s = None"
    by (simp add: o)
qed

lemma periodic_running:
  assumes "timers_ok s" "(h, t) \<in> set (timers s)" "t \<noteq> HideLaser"
  shows "gameStarted s \<and> \<not> gameOver s"
proof (rule ccontr)
  assume "\<not> (gameStarted s \<and> \<not> gameOver s)"
  with assms(1) have "periodic s = []"
    by (simp add: timers_ok_def)
  moreover from assms(2,3) have "(h, t) \<in> set (periodic s)"
    by (simp add: periodic_def)
  ultimately show False by simp
qed

lemma timers_ok_countdown:
  assumes "timers_ok s" "(h, Countdown) \<in> set (timers s)"
  shows "timers_ok (moveEffect s (countdownTick s))"
proof (cases "timeLeft s \<le> 1")
  case True
  from periodic_running [OF assms] have "gameStarted s" "\<not> gameOver s" by simp_all
  with assms(1) True show ?thesis by (simp add: timers_ok_gameover)
next
  case False
  then have c: "countdownTick s = s\<lparr>timeLeft := timeLeft s - 1\<rparr>"
    by (simp add: countdownTick_def)
  have "moveEffect s (countdownTick s) = countdownTick s"
    by (rule moveEffect_same) (simp_all add: c)
  moreover have "timers_ok (countdownTick s)"
    by (rule timers_ok_cong [OF assms(1)]) (simp_all add: c)
  ultimately show ?thesis by simp
qed

lemma timers_ok_fireTimer:
  assumes "timers_ok s"
  shows "timers_ok (moveEffect s (fireTimer g h r s))"
proof (cases "map_of (timers s) h")
  case None
  then show ?thesis using assms by (simp add: fireTimer_def moveEffect_same)
next
  case (Some t)
  then have m: "(h, t) \<in> set (timers s)" by (rule map_of_SomeD)
  show ?thesis
  proof (cases t)
    case SpawnBubble
    have "moveEffect s (spawnBubble g r s) = spawnBubble g r s"
      by (rule moveEffect_same) (simp_all add: spawnBubble_def)
    moreover have "timers_ok (spawnBubble g r s)"
      by (rule timers_ok_cong [OF assms]) (simp_all add: spawnBubble_def)
    ultimately show ?thesis using Some SpawnBubble by (simp add: fireTimer_def)
  next
    case Countdown
    with m assms have "timers_ok (moveEffect s (countdownTick s))"
      by (simp add: timers_ok_countdown)
    then show ?thesis using Some Countdown by (simp add: fireTimer_def)
  next
    case MoveBubbles
    have "moveEffect s (moveTick s) = moveTick s"
      by (rule moveEffect_same) (simp_all add: moveTick_def)
    moreover have "timers_ok (moveTick s)"
      by (rule timers_ok_cong [OF assms]) (simp_all add: moveTick_def)
    ultimately show ?thesis using Some MoveBubbles by (simp add: fireTimer_def)
  next
    case HideLaser
    let ?s = "(clearTimeout h s)\<lparr>laserVisible := False\<rparr>"
    have "moveEffect s ?s = ?s"
      by (rule moveEffect_same) (simp_all add: clearTimeout_def)
    moreover from m HideLaser assms have "timers_ok ?s"
      by (simp add: timers_ok_hide)
    ultimately show ?thesis using Some HideLaser by (simp add: fireTimer_def)
  qed
qed

lemma timers_ok_ui: "timers_ok s \<Longrightarrow> timers_ok (ui g e s)"
proof (cases e)
  case PressStart
  assume "timers_ok s"
  then show ?thesis using PressStart
    by (simp add: ui_def dispatch_def timers_ok_start moveEffect_same)
next
  case PressPlayAgain
  assume "timers_ok s"
  then show ?thesis using PressPlayAgain
    by (simp add: ui_def dispatch_def timers_ok_reset moveEffect_same)
next
  case (TouchStart x0 now)
  assume a: "timers_ok s"
  have "moveEffect s (onPanResponderGrant g now x0 s) = onPanResponderGrant g now x0 s"
    by (rule moveEffect_same) (simp_all add: onPanResponderGrant_def Let_def)
  then show ?thesis using a TouchStart
    by (simp add: ui_def dispatch_def timers_ok_touch moveEffect_same)
next
  case (TouchMove moveX)
  assume a: "timers_ok s"
  have "moveEffect s (onPanResponderMove g moveX s) = onPanResponderMove g moveX s"
    by (rule moveEffect_same) (simp_all add: onPanResponderMove_def Let_def)
  then show ?thesis using a TouchMove
    by (simp add: ui_def dispatch_def timers_ok_touch moveEffect_same)
next
  case (TouchEnd moveX now)
  assume a: "timers_ok s"
  have "moveEffect s (fireLaser s s) = fireLaser s s"
    by (rule moveEffect_same) simp_all
  then show ?thesis using a TouchEnd
    by (simp add: ui_def dispatch_def handleTap_def timers_ok_fireLaser moveEffect_same)
next
  case (Timer h r)
  assume "timers_ok s"
  then show ?thesis using Timer
    by (simp add: ui_def dispatch_def timers_ok_fireTimer)
qed

lemma reachable_ok:
  "s \<in> reachable g \<Longrightarrow> ids_ok s \<and> clock_ok s \<and> timers_ok s"
  by (induction rule: reachable.induct) (simp_all add: init_ok ids_ok_ui clock_ok_ui timers_ok_ui)

lemma gun_init: "60 \<le> screenWidth g \<Longrightarrow> gun_in_range g (init g)"
  by (simp add: gun_in_range_def init_def gunWidth_def)

lemma gun_ui: "60 \<le> screenWidth g \<Longrightarrow> gun_in_range g s \<Longrightarrow> gun_in_range g (ui g e s)"
  by (simp add: ui_def gun_dispatch)

lemma reachable_gun:
  "s \<in> reachable g \<Longrightarrow> 60 \<le> screenWidth g \<Longrightarrow> gun_in_range g s"
  by (induction rule: reachable.induct) (simp_all add: gun_init gun_ui)

lemma countdown_handle:
  assumes "timers_ok s" "gameStarted s" "\<not> gameOver s"
  shows "map_of (timers s) h = Some Countdown \<longleftrightarrow> timerRef s = Some h"
proof -
  from assms have d: "distinct (map fst (timers s))"
    and t: "timerRef s \<noteq> None"
    and p: "periodic s = [(the (bubbleTimerRef s), SpawnBubble), (the (timerRef s), Countdown),
                         (the (moveInterval s), MoveBubbles)]"
    by (simp_all add: timers_ok_def)
  have m: "(k, Countdown) \<in> set (timers s) \<longleftrightarrow> k = the (timerRef s)" for k
  proof -
    have "(k, Countdown) \<in> set (timers s) \<longleftrightarrow> (k, Countdown) \<in> set (periodic s)"
      by (simp add: periodic_def)
    then show ?thesis by (simp add: p)
  qed
  show ?thesis
  proof
    assume "map_of (timers s) h = Some Countdown"
    then have "(h, Countdown) \<in> set (timers s)" by (rule map_of_SomeD)
    with m t show "timerRef s = Some h" by auto
  next
    assume "timerRef s = Some h"
    with m have "(h, Countdown) \<in> set (timers s)" by simp
    with d show "map_of (timers s) h = Some Countdown" by simp
  qed
qed

lemma running_step:
  assumes "timers_ok s" "gameStarted s" "\<not> gameOver s" "timerRef s = Some ht"
  shows "ui g (Timer ht r) s = moveEffect s (countdownTick s)"
    and "(\<And>r. e \<noteq> Timer ht r) \<Longrightarrow>
         gameStarted (ui g e s) \<and> \<not> gameOver (ui g e s) \<and>
         timeLeft (ui g e s) = timeLeft s \<and> timerRef (ui g e s) = Some ht"
proof -
  from countdown_handle [OF assms(1-3)] assms(4)
  have c: "map_of (timers s) h = Some Countdown \<longleftrightarrow> h = ht" for h
    by auto
  then have "map_of (timers s) ht = Some Countdown" by simp
  then show "ui g (Timer ht r) s = moveEffect s (countdownTick s)"
    by (simp add: ui_def dispatch_def fireTimer_def)
  assume n: "\<And>r. e \<noteq> Timer ht r"
  show "gameStarted (ui g e s) \<and> \<not> gameOver (ui g e s) \<and>
         timeLeft (ui g e s) = timeLeft s \<and> timerRef (ui g e s) = Some ht"
  proof (cases e)
    case (Timer h r)
    with n have "h \<noteq> ht" by auto
    with c have "map_of (timers s) h \<noteq> Some Countdown" by simp
    then show ?thesis using Timer assms
      by (simp add: ui_def dispatch_def fireTimer_def spawnBubble_def moveTick_def
          clearTimeout_def split: option.split task.split)
  qed (use assms in \<open>simp_all add: ui_def dispatch_def handleTap_def
        onPanResponderGrant_def onPanResponderMove_def Let_def\<close>)
qed

lemma tick_step:
  assumes "gameStarted s" "\<not> gameOver s"
  shows "timeLeft s \<le> 1 \<Longrightarrow>
           gameStarted (moveEffect s (countdownTick s)) \<and>
           gameOver (moveEffect s (countdownTick s)) \<and> timeLeft (moveEffect s (countdownTick s)) = 0"
    and "\<not> timeLeft s \<le> 1 \<Longrightarrow>
           gameStarted (moveEffect s (countdownTick s)) \<and>
           \<not> gameOver (moveEffect s (countdownTick s)) \<and>
           timeLeft (moveEffect s (countdownTick s)) = timeLeft s - 1 \<and>
           timerRef (moveEffect s (countdownTick s)) = timerRef s"
  using assms
  by (simp_all add: countdownTick_def clearRef_def clearInterval_def Let_def split: option.split)

lemma over_step:
  assumes "timers_ok s" "gameOver s" "e \<noteq> PressPlayAgain"
  shows "gameOver (ui g e s) \<and> gameStarted (ui g e s) = gameStarted s \<and>
         timeLeft (ui g e s) = timeLeft s \<and> bubbles (ui g e s) = bubbles s \<and>
         score (ui g e s) = score s"
proof (cases e)
  case (Timer h r)
  from assms have p: "periodic s = []" by (simp add: timers_ok_def)
  have "map_of (timers s) h = None \<or> map_of (timers s) h = Some HideLaser"
  proof (cases "map_of (timers s) h")
    case (Some t)
    then have "(h, t) \<in> set (timers s)" by (rule map_of_SomeD)
    then have "t \<noteq> HideLaser \<Longrightarrow> (h, t) \<in> set (periodic s)"
      by (simp add: periodic_def)
    with p Some show ?thesis by auto
  qed simp
  then show ?thesis using Timer assms(2)
    by (auto simp add: ui_def dispatch_def fireTimer_def clearTimeout_def)
qed (use assms in \<open>simp_all add: ui_def dispatch_def\<close>)

lemma over_run:
  assumes "timers_ok s" "gameOver s" "PressPlayAgain \<notin> set es"
  shows "gameOver (run g es s) \<and> gameStarted (run g es s) = gameStarted s \<and>
         timeLeft (run g es s) = timeLeft s \<and>
         bubbles (run g es s) = bubbles s \<and> score (run g es s) = score s \<and>
         timers_ok (run g es s)"
  using assms
proof (induction es arbitrary: s)
  case Nil
  then show ?case by simp
next
  case (Cons e es)
  then have e: "e \<noteq> PressPlayAgain" and es: "PressPlayAgain \<notin> set es" by auto
  from over_step [OF Cons.prems(1,2) e, of g] have o: "gameOver (ui g e s)"
    "timeLeft (ui g e s) = timeLeft s" "bubbles (ui g e s) = bubbles s"
    "score (ui g e s) = score s" "gameStarted (ui g e s) = gameStarted s"
    by simp_all
  from Cons.prems(1) have "timers_ok (ui g e s)" by (rule timers_ok_ui)
  from Cons.IH [OF this o(1) es] o show ?case by simp
qed

lemma countdown_run:
  assumes "timers_ok s" "gameStarted s" "\<not> gameOver s" "timerRef s = Some ht"
    and "1 \<le> timeLeft s" "PressPlayAgain \<notin> set es"
  shows "(if int (firings ht es) < timeLeft s
          then gameStarted (run g es s) \<and> \<not> gameOver (run g es s) \<and>
               timeLeft (run g es s) = timeLeft s - int (firings ht es) \<and>
               timerRef (run g es s) = Some ht
          else gameStarted (run g es s) \<and> gameOver (run g es s) \<and>
               timeLeft (run g es s) = 0) \<and>
         timers_ok (run g es s)"
  using assms
proof (induction es arbitrary: s)
  case Nil
  then show ?case by simp
next
  case (Cons e es)
  then have es: "PressPlayAgain \<notin> set es" by auto
  from Cons.prems(1) have ok: "timers_ok (ui g e s)" by (rule timers_ok_ui)
  show ?case
  proof (cases "\<exists>r. e = Timer ht r")
    case True
    then obtain r where e: "e = Timer ht r" by blast
    have u: "ui g e s = moveEffect s (countdownTick s)"
      unfolding e by (rule running_step(1) [OF Cons.prems(1-4)])
    show ?thesis
    proof (cases "timeLeft s \<le> 1")
      case True
      with tick_step(1) [OF Cons.prems(2,3)] u
      have o: "gameOver (ui g e s)" "timeLeft (ui g e s) = 0" "gameStarted (ui g e s)"
        by simp_all
      have "\<not> int (firings ht (e # es)) < timeLeft s"
        using True by (simp add: e)
      with over_run [OF ok o(1) es, of g] o show ?thesis
        by simp
    next
      case False
      with tick_step(2) [OF Cons.prems(2,3)] u Cons.prems(4)
      have o: "gameStarted (ui g e s)" "\<not> gameOver (ui g e s)"
        "timeLeft (ui g e s) = timeLeft s - 1" "timerRef (ui g e s) = Some ht"
        by simp_all
      from False o(3) have "1 \<le> timeLeft (ui g e s)" by simp
      note ih = Cons.IH [OF ok o(1,2,4) this es]
      have f: "int (firings ht (e # es)) = int (firings ht es) + 1"
        by (simp add: e)
      have l: "int (firings ht es) + 1 < timeLeft s \<longleftrightarrow> int (firings ht es) < timeLeft s - 1"
        by linarith
      have m: "timeLeft s - 1 - int (firings ht es) = timeLeft s - (int (firings ht es) + 1)"
        by simp
      from ih show ?thesis
        unfolding run.simps f l o(3) m .
    qed
  next
    case False
    then have n: "\<And>r. e \<noteq> Timer ht r" by blast
    from running_step(2) [OF Cons.prems(1-4) n, of g]
    have o: "gameStarted (ui g e s)" "\<not> gameOver (ui g e s)"
      "timeLeft (ui g e s) = timeLeft s" "timerRef (ui g e s) = Some ht"
      by simp_all
    have f: "firings ht (e # es) = firings ht es"
      using n by (cases e) auto
    from Cons.prems(5) o(3) have "1 \<le> timeLeft (ui g e s)" by simp
    from Cons.IH [OF ok o(1,2,4) this es] show ?thesis
      unfolding run.simps f o(3) .
  qed
qed

section \<open>The life of a round\<close>

lemma firings_replicate: "firings h (replicate n (Timer h r)) = n"
  by (induction n) simp_all

lemma reachable_stopped:
  "s \<in> reachable g \<Longrightarrow> \<not> gameStarted s \<or> gameOver s \<Longrightarrow> periodic s = [] \<and> moveInterval s = None"
  using reachable_ok [of s g] by (auto simp: timers_ok_def)

text \<open>
  Claim C5. From an idle state the game has reached, Start schedules the countdown
  timer \<open>ht\<close>. However the other events interleave (as long as Play Again is not
  pressed), the time left stays within 0 and 120; before the 120th firing of \<open>ht\<close> the
  game is running with \<open>120 - n\<close> seconds left after \<open>n\<close> firings, and from the 120th
  on it is over with 0 seconds left and no interval timer scheduled, so that no later
  event changes the time left or the bubbles.
\<close>

theorem round_lifecycle:
  assumes "s0 \<in> reachable g" and "\<not> gameStarted s0" and "\<not> gameOver s0"
    and "PressPlayAgain \<notin> set es"
  shows "let ht = Suc (nextHandle s0); s = run g es (ui g PressStart s0) in
       timerRef (ui g PressStart s0) = Some ht \<and> timeLeft (ui g PressStart s0) = 120 \<and>
       0 \<le> timeLeft s \<and> timeLeft s \<le> 120 \<and>
       (if firings ht es < 120
        then gameStarted s \<and> \<not> gameOver s \<and> timeLeft s = 120 - int (firings ht es)
        else gameStarted s \<and> gameOver s \<and> timeLeft s = 0 \<and> periodic s = [] \<and>
             (\<forall>es'. PressPlayAgain \<notin> set es' \<longrightarrow>
                timeLeft (run g es' s) = 0 \<and> bubbles (run g es' s) = bubbles s \<and>
                gameOver (run g es' s) \<and> periodic (run g es' s) = []))"
proof -
  let ?s1 = "ui g PressStart s0"
  let ?ht = "Suc (nextHandle s0)"
  let ?s = "run g es ?s1"
  from assms(1) have ok0: "timers_ok s0" by (simp add: reachable_ok)
  with assms(2,3) have m: "moveInterval s0 = None" by (simp add: timers_ok_def)
  have u: "?s1 = moveEffect s0 (startGame s0)"
    using assms(2,3) by (simp add: ui_def dispatch_def)
  have ok1: "timers_ok ?s1" using ok0 by (rule timers_ok_ui)
  have r: "gameStarted ?s1" "\<not> gameOver ?s1" "timerRef ?s1 = Some ?ht"
    using start_effect [OF assms(2,3) m] by (simp_all add: u)
  have t: "timeLeft ?s1 = 120"
    by (simp add: u startGame_def setInterval_def)
  then have t1: "1 \<le> timeLeft ?s1" by simp
  note c = countdown_run [OF ok1 r t1 assms(4), of g, unfolded t]
  then have oks: "timers_ok ?s" by simp
  have b: "0 \<le> timeLeft ?s \<and> timeLeft ?s \<le> 120"
    using c by (auto split: if_splits)
  have o: "periodic ?s = [] \<and>
             (\<forall>es'. PressPlayAgain \<notin> set es' \<longrightarrow>
                timeLeft (run g es' ?s) = 0 \<and> bubbles (run g es' ?s) = bubbles ?s \<and>
                gameOver (run g es' ?s) \<and> periodic (run g es' ?s) = [])"
    if "gameOver ?s" "timeLeft ?s = 0"
  proof
    from oks that(1) show "periodic ?s = []" by (simp add: timers_ok_def)
    show "\<forall>es'. PressPlayAgain \<notin> set es' \<longrightarrow>
                timeLeft (run g es' ?s) = 0 \<and> bubbles (run g es' ?s) = bubbles ?s \<and>
                gameOver (run g es' ?s) \<and> periodic (run g es' ?s) = []"
    proof (intro allI impI)
      fix es' assume "PressPlayAgain \<notin> set es'"
      from over_run [OF oks that(1) this, of g] that(2)
      show "timeLeft (run g es' ?s) = 0 \<and> bubbles (run g es' ?s) = bubbles ?s \<and>
                gameOver (run g es' ?s) \<and> periodic (run g es' ?s) = []"
        by (simp add: timers_ok_def)
    qed
  qed
  have "if firings ?ht es < 120
        then gameStarted ?s \<and> \<not> gameOver ?s \<and> timeLeft ?s = 120 - int (firings ?ht es)
        else gameStarted ?s \<and> gameOver ?s \<and> timeLeft ?s = 0 \<and> periodic ?s = [] \<and>
             (\<forall>es'. PressPlayAgain \<notin> set es' \<longrightarrow>
                timeLeft (run g es' ?s) = 0 \<and> bubbles (run g es' ?s) = bubbles ?s \<and>
                gameOver (run g es' ?s) \<and> periodic (run g es' ?s) = [])"
  proof (cases "firings ?ht es < 120")
    case True
    with c show ?thesis by simp
  next
    case False
    with c have "gameStarted ?s \<and> gameOver ?s \<and> timeLeft ?s = 0" by simp
    with o False show ?thesis by simp
  qed
  with r(3) t b show ?thesis
    unfolding Let_def by blast
qed

theorem round_lifecycle_witness:
  "gameOver (run phone (replicate 120 (Timer 2 0)) (ui phone PressStart (init phone))) \<and>
   timeLeft (run phone (replicate 120 (Timer 2 0)) (ui phone PressStart (init phone))) = 0 \<and>
   periodic (run phone (replicate 120 (Timer 2 0)) (ui phone PressStart (init phone))) = [] \<and>
   \<not> gameOver (run phone (replicate 119 (Timer 2 0)) (ui phone PressStart (init phone))) \<and>
   timeLeft (run phone (replicate 119 (Timer 2 0)) (ui phone PressStart (init phone))) = 1"
proof -
  have r: "init phone \<in> reachable phone" by (rule reachable.start)
  have i: "\<not> gameStarted (init phone)" "\<not> gameOver (init phone)"
    by (simp_all add: init_def)
  have h: "Suc (nextHandle (init phone)) = 2"
    by (simp add: init_def)
  have p: "PressPlayAgain \<notin> set (replicate n (Timer 2 0))" for n
    by simp
  have a: "gameOver (run phone (replicate 120 (Timer 2 0)) (ui phone PressStart (init phone))) \<and>
   timeLeft (run phone (replicate 120 (Timer 2 0)) (ui phone PressStart (init phone))) = 0 \<and>
   periodic (run phone (replicate 120 (Timer 2 0)) (ui phone PressStart (init phone))) = []"
    using round_lifecycle [OF r i p, of 120] unfolding Let_def h firings_replicate by simp
  have b: "\<not> gameOver (run phone (replicate 119 (Timer 2 0)) (ui phone PressStart (init phone))) \<and>
   timeLeft (run phone (replicate 119 (Timer 2 0)) (ui phone PressStart (init phone))) = 1"
    using round_lifecycle [OF r i p, of 119] unfolding Let_def h firings_replicate by simp
  from a b show ?thesis by simp
qed

section \<open>The gun stays on the screen\<close>

text \<open>
  Claim C6. On a window at least as wide as the gun, the start and every move of a
  gesture, with any incoming coordinate and in either variant of the pan responder,
  store a gun position in \<open>[0, screenWidth - gunWidth]\<close>; the initial centred position
  lies in that interval, and so does the position in every state the game can reach
  and after every further event.
\<close>

theorem gun_position_clamped:
  assumes "gunWidth \<le> screenWidth g" and "s \<in> reachable g"
  shows "0 \<le> gunPosition (onPanResponderGrant g now x0 t) \<and>
         gunPosition (onPanResponderGrant g now x0 t) \<le> screenWidth g - gunWidth \<and>
         0 \<le> gunPosition (onPanResponderMove g moveX t) \<and>
         gunPosition (onPanResponderMove g moveX t) \<le> screenWidth g - gunWidth \<and>
         0 \<le> gunPosition (onPanResponderMove_dx g gunInitialX dx t) \<and>
         gunPosition (onPanResponderMove_dx g gunInitialX dx t) \<le> screenWidth g - gunWidth \<and>
         0 \<le> gunPosition (init g) \<and> gunPosition (init g) \<le> screenWidth g - gunWidth \<and>
         0 \<le> gunPosition s \<and> gunPosition s \<le> screenWidth g - gunWidth \<and>
         0 \<le> gunPosition (ui g e s) \<and> gunPosition (ui g e s) \<le> screenWidth g - gunWidth"
proof -
  from assms(1) have w: "60 \<le> screenWidth g" by (simp add: gunWidth_def)
  have h: "0 \<le> gunPosition (onPanResponderGrant g now x0 t) \<and>
         gunPosition (onPanResponderGrant g now x0 t) \<le> screenWidth g - gunWidth \<and>
         0 \<le> gunPosition (onPanResponderMove g moveX t) \<and>
         gunPosition (onPanResponderMove g moveX t) \<le> screenWidth g - gunWidth \<and>
         0 \<le> gunPosition (onPanResponderMove_dx g gunInitialX dx t) \<and>
         gunPosition (onPanResponderMove_dx g gunInitialX dx t) \<le> screenWidth g - gunWidth"
    using w by (simp add: onPanResponderGrant_def onPanResponderMove_def
        onPanResponderMove_dx_def gunWidth_def Let_def)
  from w have i: "gun_in_range g (init g)" by (rule gun_init)
  from assms(2) w have r: "gun_in_range g s" by (rule reachable_gun)
  with w have u: "gun_in_range g (ui g e s)" by (simp add: gun_ui)
  from h i r u show ?thesis by (simp add: gun_in_range_def)
qed

theorem gun_position_clamped_witness:
  "gunWidth \<le> screenWidth phone \<and> ui phone PressStart (init phone) \<in> reachable phone \<and>
   gunPosition (onPanResponderGrant phone 5 (- 20) (init phone)) = 0 \<and>
   gunPosition (onPanResponderMove phone 1000 (init phone)) = 340 \<and>
   gunPosition (onPanResponderMove_dx phone 170 1000 (init phone)) = 340 \<and>
   gunPosition (ui phone (TouchMove 1000) (ui phone PressStart (init phone))) = 340"
proof -
  have w: "gunWidth \<le> screenWidth phone" by (simp add: gunWidth_def phone_def)
  have r: "ui phone PressStart (init phone) \<in> reachable phone"
    by (rule reachable.step [OF reachable.start]) simp
  have v: "gunPosition (onPanResponderGrant phone 5 (- 20) (init phone)) = 0 \<and>
   gunPosition (onPanResponderMove phone 1000 (init phone)) = 340 \<and>
   gunPosition (onPanResponderMove_dx phone 170 1000 (init phone)) = 340 \<and>
   gunPosition (ui phone (TouchMove 1000) (ui phone PressStart (init phone))) = 340"
    by code_simp
  from gun_position_clamped [OF w r] w r v show ?thesis by simp
qed

section \<open>Start while a round is running\<close>

text \<open>
  Claim C9. Start while a round is running is a no-op: the screen renders the Start
  button, the only caller of \<open>startGame\<close>, only while the game is neither started nor
  over, so in a running game the press changes nothing, neither the state nor the
  scheduled timers; and in a running state the game has reached, the interval timers
  are exactly one spawn, one countdown and one motion timer, with none left over.
\<close>

theorem start_while_running_is_noop:
  assumes "gameStarted s" and "\<not> gameOver s"
  shows "dispatch g PressStart s = s \<and> ui g PressStart s = s \<and>
         timers (ui g PressStart s) = timers s \<and>
         run g [PressStart, PressStart] s = s \<and>
         (s \<in> reachable g \<longrightarrow>
            map snd (periodic (ui g PressStart s)) = [SpawnBubble, Countdown, MoveBubbles])"
proof -
  have d: "dispatch g PressStart s = s"
    using assms by (simp add: dispatch_def)
  then have u: "ui g PressStart s = s"
    by (simp add: ui_def moveEffect_same)
  have "map snd (periodic s) = [SpawnBubble, Countdown, MoveBubbles]" if "s \<in> reachable g"
    using reachable_ok [OF that] assms by (simp add: timers_ok_def)
  with d u show ?thesis by simp
qed

theorem start_while_running_is_noop_witness:
  "gameStarted first_round \<and> \<not> gameOver first_round \<and>
   ui phone PressStart first_round = first_round \<and>
   timers (ui phone PressStart first_round) =
     [(1, SpawnBubble), (2, Countdown), (3, MoveBubbles)] \<and>
   map snd (periodic (ui phone PressStart first_round)) = [SpawnBubble, Countdown, MoveBubbles]"
proof -
  have r: "gameStarted first_round" "\<not> gameOver first_round"
    "timers first_round = [(1, SpawnBubble), (2, Countdown), (3, MoveBubbles)]"
    by code_simp+
  have "first_round \<in> reachable phone"
    unfolding first_round_def by (rule reachable.step [OF reachable.start]) simp
  with start_while_running_is_noop [OF r(1,2), of phone] r show ?thesis
    by (simp add: periodic_def)
qed

section \<open>Timers when a round stops\<close>

text \<open>In every reachable state that is not running no interval timer is scheduled.\<close>

lemma reachable_stopped_idle:
  "s \<in> reachable g \<Longrightarrow> \<not> gameStarted s \<or> gameOver s \<Longrightarrow>
   SpawnBubble \<notin> snd ` set (timers s) \<and> Countdown \<notin> snd ` set (timers s) \<and>
   MoveBubbles \<notin> snd ` set (timers s)"
proof -
  assume a: "s \<in> reachable g" "\<not> gameStarted s \<or> gameOver s"
  then have "periodic s = []" by (simp add: reachable_stopped)
  then have "\<forall>e \<in> set (timers s). snd e = HideLaser"
    by (simp add: periodic_def filter_empty_conv)
  then show ?thesis by force
qed

text \<open>
  Claim C8, evaluated where the code departs from it: a round in which the player fires
  just before the last countdown tick. The laser timeout (id 4) is still scheduled when
  the game is over, after Play Again, and in the round started next, where it runs.
\<close>

theorem laser_timeout_survives_reset:
  "gameOver (run phone round_events (init phone)) \<and>
   timers (run phone round_events (init phone)) = [(4, HideLaser)] \<and>
   \<not> gameStarted (run phone (round_events @ [PressPlayAgain]) (init phone)) \<and>
   timers (run phone (round_events @ [PressPlayAgain]) (init phone)) = [(4, HideLaser)] \<and>
   timers (run phone (round_events @ [PressPlayAgain, PressStart]) (init phone)) =
     [(4, HideLaser), (5, SpawnBubble), (6, Countdown), (7, MoveBubbles)] \<and>
   timers (run phone (round_events @ [PressPlayAgain, PressStart, Timer 4 0]) (init phone)) =
     [(5, SpawnBubble), (6, Countdown), (7, MoveBubbles)]"
  by code_simp

section \<open>Tap or drag\<close>

text \<open>
  The release handler of the pan responder applies the tap test, and calls the
  \<^verbatim>\<open>handleTap\<close> of the render \<open>c\<close> it closes over. The responder is created in the
  first render and kept in a ref, so \<open>c\<close> is the initial state, whose \<open>gameStarted\<close> is
  false: through this handler nothing is ever fired.
\<close>

lemma onPanResponderRelease_tap:
  "onPanResponderRelease c now moveX s =
     (if gameStarted c \<and> \<not> gameOver c \<and> now - tapStartTime s < 200 \<and>
         \<bar>moveX - tapStartX s\<bar> < 10
      then fireLaser c s else s)"
  by (simp add: onPanResponderRelease_def handleTap_def TAP_MAX_DURATION_def
      TAP_MAX_MOVEMENT_def Let_def)

lemma onPanResponderRelease_first_render:
  "onPanResponderRelease (init g) now moveX s = s"
  by (simp add: onPanResponderRelease_tap) (simp add: init_def)

text \<open>Outside a running game a touch does nothing at all.\<close>

lemma touch_outside_running:
  assumes "\<not> gameStarted s \<or> gameOver s"
  shows "ui g (TouchStart x0 now) s = s" "ui g (TouchMove moveX) s = s"
    "ui g (TouchEnd moveX now) s = s"
  using assms by (auto simp add: ui_def dispatch_def moveEffect_same)

text \<open>
  Claim C2, evaluated where the code departs from it: in a running game a touch that
  lasts 500 ms and moves 100 px fires on release (the laser shows and the bubble above
  the gun is scored), since the release of a touch reaches \<^verbatim>\<open>handleTap\<close> directly;
  and the pan responder's own release handler does not fire for a touch of 50 ms that
  does not move.
\<close>

theorem release_fires_after_drag:
  "score (run phone drag_events (init phone)) = 0 \<and>
   length (bubbles (run phone drag_events (init phone))) = 1 \<and>
   \<not> laserVisible (run phone drag_events (init phone)) \<and>
   tapStartTime (run phone drag_events (init phone)) = 1000 \<and>
   tapStartX (run phone drag_events (init phone)) = 100 \<and>
   score (run phone (drag_events @ [TouchEnd 200 1500]) (init phone)) = 1 \<and>
   bubbles (run phone (drag_events @ [TouchEnd 200 1500]) (init phone)) = [] \<and>
   laserVisible (run phone (drag_events @ [TouchEnd 200 1500]) (init phone)) \<and>
   gameStarted (run phone [PressStart, TouchStart 100 1000] (init phone)) \<and>
   \<not> gameOver (run phone [PressStart, TouchStart 100 1000] (init phone)) \<and>
   onPanResponderRelease (init phone) 1050 100
       (run phone [PressStart, TouchStart 100 1000] (init phone)) =
     run phone [PressStart, TouchStart 100 1000] (init phone)"
  by code_simp

end
